theory Spec2Isabelle
  imports Main "HOL-Library.Word"
begin

unbundle bit_operations_syntax

section \<open>Data model\<close>

text \<open>
  The shim \<^verbatim>\<open>yicesJNI.cpp\<close> sits between the Java virtual machine and the Yices
  library.  A \<^verbatim>\<open>jbyte\<close> is a signed 8-bit integer, a \<^verbatim>\<open>jint\<close> a signed 32-bit
  integer and a \<^verbatim>\<open>jlong\<close> a signed 64-bit integer; \<open>sint\<close> reads the signed value and
  \<open>unat\<close> the unsigned one.  A GMP integer (\<^verbatim>\<open>mpz_t\<close>) is an \<open>int\<close>.  A Java array is the
  list of its elements, and \<^verbatim>\<open>GetArrayLength\<close> is \<open>length\<close>.
\<close>

type_synonym jbyte = "8 word"
type_synonym jint = "32 word"
type_synonym jlong = "64 word"

text \<open>
  Undefined behaviour of the C++ code is a value of the model: a read or write outside a
  buffer, or a null pointer handed to a native function that dereferences it.
\<close>

datatype fault = Out_of_bounds | Null_pointer

subsection \<open>The GMP functions used by the codec\<close>

text \<open>
  GMP is an external library; its functions are modelled from the GMP manual.
  \<open>be_val\<close> is the unsigned number that a sequence of bytes denotes, most significant
  byte first: what \<^verbatim>\<open>mpz_import(z, n, 1, 1, 0, 0, b)\<close> stores in \<open>z\<close>.
\<close>

fun be_val :: "jbyte list \<Rightarrow> nat" where
  "be_val [] = 0"
| "be_val (x # xs) = unat x * 256 ^ length xs + be_val xs"

definition mpz_import :: "nat \<Rightarrow> jbyte list \<Rightarrow> int" where
  "mpz_import n b = int (be_val (take n b))"

text \<open>
  \<^verbatim>\<open>mpz_sizeinbase(z, 2)\<close> is the number of bits of the magnitude of \<open>z\<close>, and 1 when
  \<open>z\<close> is zero.
\<close>

fun bitlen :: "nat \<Rightarrow> nat" where
  "bitlen n = (if n = 0 then 0 else Suc (bitlen (n div 2)))"

declare bitlen.simps [simp del]

definition mpz_sizeinbase2 :: "int \<Rightarrow> nat" where
  "mpz_sizeinbase2 z = (if z = 0 then 1 else bitlen (nat \<bar>z\<bar>))"

text \<open>
  \<^verbatim>\<open>mpz_export(p, NULL, 1, 1, 0, 0, z)\<close> writes the magnitude of \<open>z\<close> at \<open>p\<close>, most
  significant byte first, without leading zero bytes; it writes nothing when \<open>z\<close> is zero.
\<close>

fun be_bytes :: "nat \<Rightarrow> jbyte list" where
  "be_bytes n = (if n = 0 then [] else be_bytes (n div 256) @ [of_nat (n mod 256)])"

declare be_bytes.simps [simp del]

definition mpz_export :: "int \<Rightarrow> jbyte list" where
  "mpz_export z = be_bytes (nat \<bar>z\<bar>)"

definition mpz_sgn :: "int \<Rightarrow> int" where
  "mpz_sgn z = sgn z"

text \<open>Writing \<open>src\<close> into the buffer \<open>buf\<close> from offset \<open>off\<close> on.\<close>

definition write_at :: "'a list \<Rightarrow> nat \<Rightarrow> 'a list \<Rightarrow> 'a list" where
  "write_at buf off src = take off buf @ src @ drop (off + length src) buf"

section \<open>The big-integer codec\<close>

subsection \<open>\<^verbatim>\<open>negate_bytes\<close>\<close>

text \<open>
  The body of the \<^verbatim>\<open>do ... while (k > 0)\<close> loop: \<open>k\<close> is decremented, the byte at \<open>k\<close> is
  complemented and the carry \<open>c\<close> added.  \<open>x\<close> is an \<^verbatim>\<open>unsigned\<close> that never exceeds 256,
  so its arithmetic does not wrap and it is a \<open>nat\<close> here.
\<close>

function negate_loop :: "jbyte list \<Rightarrow> nat \<Rightarrow> nat \<Rightarrow> jbyte list" where
  "negate_loop b k c =
     (let k1 = k - 1;
          x = (unat (b ! k1) XOR 255) + c;
          b1 = b[k1 := of_nat (x AND 255)];
          c1 = drop_bit 8 x
      in if k1 > 0 then negate_loop b1 k1 c1 else b1)"
  by pat_completeness auto
termination
  by (relation "measure (\<lambda>(b, k, c). k)") auto

declare negate_loop.simps [simp del]

text \<open>
  With \<open>n = 0\<close> the first \<^verbatim>\<open>k--\<close> wraps around and the loop leaves the buffer, as it does
  when \<open>n\<close> exceeds the size of the buffer.  (At both call sites \<open>n\<close> is at most
  \<^verbatim>\<open>INT32_MAX\<close>, so the conversion of \<^verbatim>\<open>size_t n\<close> to \<^verbatim>\<open>unsigned k\<close> is exact.)
\<close>

definition negate_bytes :: "jbyte list \<Rightarrow> nat \<Rightarrow> fault + jbyte list" where
  "negate_bytes b n =
     (if n = 0 \<or> length b < n then Inl Out_of_bounds else Inr (negate_loop b n 1))"

subsection \<open>The Java virtual machine, as far as the codec needs it\<close>

text \<open>
  What the virtual machine decides on its own is a parameter of the model:
  whether \<^verbatim>\<open>Get<Type>ArrayElements\<close> on an argument fails, hands out a copy or hands out
  the array's own storage; whether \<^verbatim>\<open>NewByteArray\<close> and \<^verbatim>\<open>operator new[]\<close> succeed.
\<close>

datatype acq = AcqFail | AcqCopy | AcqDirect

record jvm =
  acquire :: "string \<Rightarrow> acq"
  new_array_ok :: "nat \<Rightarrow> bool"
  heap_ok :: "nat \<Rightarrow> bool"

definition INT32_MAX :: nat where
  "INT32_MAX = 2147483647"

subsection \<open>\<^verbatim>\<open>mpz_to_byte_array\<close>\<close>

text \<open>
  \<open>junk\<close> is the content of the scratch buffer before it is written (the stack buffer and
  \<^verbatim>\<open>new jbyte[nbytes]\<close> are not initialised).  The result \<open>Inr None\<close> is the \<^verbatim>\<open>NULL\<close>
  returned with a pending out-of-memory exception.
\<close>

definition mpz_to_byte_array :: "jvm \<Rightarrow> (nat \<Rightarrow> jbyte) \<Rightarrow> int \<Rightarrow> fault + jbyte list option" where
  "mpz_to_byte_array env junk z =
     (let nbits = mpz_sizeinbase2 z;
          nbytes = drop_bit 3 (nbits + 7) + 1
      in if nbytes \<le> 32 \<or> (nbytes \<le> INT32_MAX \<and> heap_ok env nbytes) then
           (let aux0 = (map junk [0..<nbytes])[0 := 0, 1 := 0];
                aux1 = write_at aux0 1 (mpz_export z)
            in case (if mpz_sgn z < 0 then negate_bytes aux1 nbytes else Inr aux1) of
                 Inl f \<Rightarrow> Inl f
               | Inr aux \<Rightarrow>
                   (let r = (if (aux ! 0 = 0 \<and> 0 \<le> sint (aux ! 1)) \<or>
                                (aux ! 0 = - 1 \<and> sint (aux ! 1) < 0) then 1 else 0 :: nat)
                    in if new_array_ok env (nbytes - r)
                       then Inr (Some (take (nbytes - r) (drop r aux)))
                       else Inr None))
         else Inr None)"

subsection \<open>\<^verbatim>\<open>byte_array_to_mpz\<close>\<close>

text \<open>
  The function reads \<^verbatim>\<open>b[0]\<close> and negates the buffer in place when the number is
  negative; the model returns the integer together with the buffer as it is left.
\<close>

definition byte_array_to_mpz :: "jbyte list \<Rightarrow> nat \<Rightarrow> fault + (int \<times> jbyte list)" where
  "byte_array_to_mpz b n =
     (if b = [] \<or> length b < n then Inl Out_of_bounds
      else if sint (b ! 0) < 0 then
        (case negate_bytes b n of
           Inl f \<Rightarrow> Inl f
         | Inr b1 \<Rightarrow> Inr (- mpz_import n b1, b1))
      else Inr (mpz_import n b, b))"

text \<open>
  The minimal-encoding invariant in the words of the specification: no redundant leading
  \<^verbatim>\<open>0x00\<close> byte (one followed by a byte with a clear high bit) and no redundant leading
  \<^verbatim>\<open>0xFF\<close> byte (one followed by a byte with a set high bit).
\<close>

fun redundant_lead :: "jbyte list \<Rightarrow> bool" where
  "redundant_lead (b0 # b1 # bs) =
     ((b0 = 0 \<and> \<not> bit b1 7) \<or> (b0 = 255 \<and> bit b1 7))"
| "redundant_lead _ = False"

definition minimal :: "jbyte list \<Rightarrow> bool" where
  "minimal bs = (bs \<noteq> [] \<and> \<not> redundant_lead bs)"

text \<open>
  The size of the scratch buffer of \<^verbatim>\<open>mpz_to_byte_array\<close>, the value encoded by a byte
  sequence in two's complement, and the integer that \<^verbatim>\<open>byte_array_to_mpz\<close> computes from
  a whole array.
\<close>

definition enc_nbytes :: "int \<Rightarrow> nat" where
  "enc_nbytes z = drop_bit 3 (mpz_sizeinbase2 z + 7) + 1"

definition tc_val :: "jbyte list \<Rightarrow> int" where
  "tc_val bs = (if bs \<noteq> [] \<and> bit (hd bs) 7 then int (be_val bs) - 256 ^ length bs
                else int (be_val bs))"

definition decoded :: "jbyte list \<Rightarrow> fault + int" where
  "decoded bs = (case byte_array_to_mpz bs (length bs) of Inl f \<Rightarrow> Inl f | Inr (z, b) \<Rightarrow> Inr z)"

text \<open>The last step of \<^verbatim>\<open>mpz_to_byte_array\<close>: \<^verbatim>\<open>aux + r\<close>.\<close>

definition strip_lead :: "jbyte list \<Rightarrow> jbyte list" where
  "strip_lead aux =
     (if (aux ! 0 = 0 \<and> 0 \<le> sint (aux ! 1)) \<or> (aux ! 0 = - 1 \<and> sint (aux ! 1) < 0)
      then drop 1 aux else aux)"

section \<open>The JNI boundary\<close>

subsection \<open>Array elements\<close>

text \<open>
  From the JNI specification.  \<^verbatim>\<open>Get<Type>ArrayElements\<close> returns \<^verbatim>\<open>NULL\<close> (\<open>None\<close>) or
  the elements, which are a copy of the array or the array's own storage; the flag says
  which (\<^verbatim>\<open>*isCopy\<close>).  \<^verbatim>\<open>Release<Type>ArrayElements\<close> copies the elements back unless
  the mode is \<^verbatim>\<open>JNI_ABORT\<close>; when the elements are not a copy the mode has no effect,
  since every write went to the array itself.  \<open>ReleaseArrayElements arr e mode\<close> is the
  content of the Java array after the release, \<open>arr\<close> being its content when the elements
  were handed out.
\<close>

datatype release_mode = JNI_COPY_BACK | JNI_COMMIT | JNI_ABORT

definition GetArrayElements :: "jvm \<Rightarrow> string \<Rightarrow> 'a list \<Rightarrow> (bool \<times> 'a list) option" where
  "GetArrayElements env name arr =
     (case acquire env name of
        AcqFail \<Rightarrow> None
      | AcqCopy \<Rightarrow> Some (True, arr)
      | AcqDirect \<Rightarrow> Some (False, arr))"

definition ReleaseArrayElements :: "'a list \<Rightarrow> bool \<times> 'a list \<Rightarrow> release_mode \<Rightarrow> 'a list" where
  "ReleaseArrayElements arr e mode =
     (if fst e then (if mode = JNI_ABORT then arr else snd e) else snd e)"

subsection \<open>What a call does\<close>

text \<open>
  The entry point \<^verbatim>\<open>Java_com_sri_yices_Yices_bytesToIntConstant\<close> is \<open>bytesToIntConstant\<close>
  here, and so on; the connectives, whose names are keywords, are \<open>Yices_and\<close>, \<open>Yices_or\<close>,
  \<open>Yices_xor\<close> and \<open>Yices_distinct\<close>.
  A call of an entry point returns a \<^verbatim>\<open>jint\<close> and leaves a trace of what it did at the
  boundary, in program order, and the content of the caller's arrays.
  \<open>Raised_OutOfMemory\<close> is a call of \<^verbatim>\<open>out_of_mem_exception\<close> (which class is thrown, and
  the fatal error when none can be, are left out).
\<close>

datatype event =
    Acquired string
  | Acquire_failed string
  | Released string release_mode
  | Region_copied string
  | Canonicalized
  | Called_yices_mpz int
  | Called_yices_mpq int int
  | Called_native string
  | Raised_OutOfMemory

record 'a outcome =
  result :: jint
  trace :: "event list"
  arrays :: 'a

definition acq_event :: "string \<Rightarrow> 'b option \<Rightarrow> event" where
  "acq_event name p = (case p of None \<Rightarrow> Acquire_failed name | Some e \<Rightarrow> Acquired name)"

text \<open>\<^verbatim>\<open>if (p != NULL) env->Release...ArrayElements(arr, p, JNI_ABORT);\<close>\<close>

definition release_if_acquired ::
    "string \<Rightarrow> 'a list \<Rightarrow> (bool \<times> 'a list) option \<Rightarrow> 'a list \<times> event list" where
  "release_if_acquired name arr p =
     (case p of
        None \<Rightarrow> (arr, [])
      | Some e \<Rightarrow> (ReleaseArrayElements arr e JNI_ABORT, [Released name JNI_ABORT]))"

fun acquired :: "event list \<Rightarrow> string list" where
  "acquired [] = []"
| "acquired (Acquired x # es) = x # acquired es"
| "acquired (e # es) = acquired es"

fun released :: "event list \<Rightarrow> string list" where
  "released [] = []"
| "released (Released x m # es) = x # released es"
| "released (e # es) = released es"

text \<open>
  A native function that may run out of memory returns \<open>None\<close> when the out-of-memory
  callback throws \<^verbatim>\<open>std::bad_alloc\<close>; the shim catches it and raises the Java exception.
\<close>

definition guarded :: "jint option \<Rightarrow> jint \<times> event list" where
  "guarded r = (case r of Some t \<Rightarrow> (t, []) | None \<Rightarrow> (- 1, [Raised_OutOfMemory]))"

subsection \<open>\<^verbatim>\<open>bytesToIntConstant\<close> and \<^verbatim>\<open>bytesToRationalConstant\<close>\<close>

definition bytesToIntConstant ::
    "jvm \<Rightarrow> (int \<Rightarrow> jint option) \<Rightarrow> jbyte list \<Rightarrow> fault + (jbyte list) outcome" where
  "bytesToIntConstant env yices_mpz a =
     (let n = length a;
          b = GetArrayElements env ''a'' a
      in case b of
           None \<Rightarrow> Inr \<lparr>result = - 1, trace = [Acquire_failed ''a'', Raised_OutOfMemory], arrays = a\<rparr>
         | Some (cp, buf) \<Rightarrow>
             (case byte_array_to_mpz buf n of
                Inl f \<Rightarrow> Inl f
              | Inr (z, buf1) \<Rightarrow>
                  (let (res, ev) = guarded (yices_mpz z)
                   in Inr \<lparr>result = res,
                           trace = [Acquired ''a'', Called_yices_mpz z] @ ev @ [Released ''a'' JNI_ABORT],
                           arrays = ReleaseArrayElements a (cp, buf1) JNI_ABORT\<rparr>)))"

text \<open>
  \<^verbatim>\<open>mpq_canonicalize\<close> (GMP): remove the common factors of numerator and denominator and
  make the denominator positive.  The denominator must not be zero.
\<close>

definition mpq_canonicalize :: "int \<times> int \<Rightarrow> int \<times> int" where
  "mpq_canonicalize q =
     (let n = fst q; d = snd q; g = gcd n d
      in if d < 0 then (- (n div g), - (d div g)) else (n div g, d div g))"

text \<open>
  \<^verbatim>\<open>bytesToRationalConstant\<close> writes through the elements of two arrays, and a caller may
  pass one array object as both.  So here the arrays are objects in a store: \<open>num\<close> and
  \<open>den\<close> are references, and the elements handed out are a private copy or the storage of
  an array.  A write through the storage of an array is a write to the array, seen by every
  later read of it; releasing in abort mode discards a copy and leaves storage as it is.
\<close>

type_synonym jarray = nat
type_synonym byte_store = "jarray \<Rightarrow> jbyte list"

datatype byte_elems = Copy_of "jbyte list" | Storage_of jarray

definition GetByteArrayElements :: "jvm \<Rightarrow> string \<Rightarrow> byte_store \<Rightarrow> jarray \<Rightarrow> byte_elems option" where
  "GetByteArrayElements env name h r =
     (case acquire env name of
        AcqFail \<Rightarrow> None
      | AcqCopy \<Rightarrow> Some (Copy_of (h r))
      | AcqDirect \<Rightarrow> Some (Storage_of r))"

definition elems_content :: "byte_store \<Rightarrow> byte_elems \<Rightarrow> jbyte list" where
  "elems_content h e = (case e of Copy_of b \<Rightarrow> b | Storage_of r \<Rightarrow> h r)"

definition elems_write :: "byte_store \<Rightarrow> byte_elems \<Rightarrow> jbyte list \<Rightarrow> byte_store \<times> byte_elems" where
  "elems_write h e b = (case e of Copy_of c \<Rightarrow> (h, Copy_of b) | Storage_of r \<Rightarrow> (h(r := b), Storage_of r))"

definition ReleaseByteArrayElements ::
    "byte_store \<Rightarrow> jarray \<Rightarrow> byte_elems \<Rightarrow> release_mode \<Rightarrow> byte_store" where
  "ReleaseByteArrayElements h r e mode =
     (case e of
        Copy_of b \<Rightarrow> if mode = JNI_ABORT then h else h(r := b)
      | Storage_of r' \<Rightarrow> h)"

text \<open>\<^verbatim>\<open>if (p != NULL) env->ReleaseByteArrayElements(arr, p, JNI_ABORT);\<close>\<close>

definition release_bytes_if_acquired ::
    "string \<Rightarrow> byte_store \<Rightarrow> jarray \<Rightarrow> byte_elems option \<Rightarrow> byte_store \<times> event list" where
  "release_bytes_if_acquired name h r p =
     (case p of
        None \<Rightarrow> (h, [])
      | Some e \<Rightarrow> (ReleaseByteArrayElements h r e JNI_ABORT, [Released name JNI_ABORT]))"

text \<open>
  The numerator is decoded first, in place; the denominator is decoded from what its
  elements show after that.  \<open>arrays\<close> is the store after the call.
\<close>

definition bytesToRationalConstant ::
    "jvm \<Rightarrow> (int \<times> int \<Rightarrow> jint option) \<Rightarrow> byte_store \<Rightarrow> jarray \<Rightarrow> jarray
      \<Rightarrow> fault + byte_store outcome" where
  "bytesToRationalConstant env yices_mpq h num den =
     (let num_size = length (h num);
          num_bytes = GetByteArrayElements env ''num'' h num;
          den_size = length (h den);
          den_bytes = GetByteArrayElements env ''den'' h den;
          ev0 = [acq_event ''num'' num_bytes, acq_event ''den'' den_bytes]
      in case (num_bytes, den_bytes) of
           (Some en, Some ed) \<Rightarrow>
             (case byte_array_to_mpz (elems_content h en) num_size of
                Inl f \<Rightarrow> Inl f
              | Inr (qn, bn1) \<Rightarrow>
                  (let (h1, en1) = elems_write h en bn1
                   in case byte_array_to_mpz (elems_content h1 ed) den_size of
                        Inl f \<Rightarrow> Inl f
                      | Inr (qd, bd1) \<Rightarrow>
                          (let (h2, ed1) = elems_write h1 ed bd1;
                               (res, ev1) =
                                 (if mpz_sgn qd \<noteq> 0 then
                                    (let q = mpq_canonicalize (qn, qd);
                                         (r, ev) = guarded (yices_mpq q)
                                     in (r, [Canonicalized, Called_yices_mpq (fst q) (snd q)] @ ev))
                                  else (- 1, []));
                               (h3, ev2) = release_bytes_if_acquired ''num'' h2 num (Some en1);
                               (h4, ev3) = release_bytes_if_acquired ''den'' h3 den (Some ed1)
                           in Inr \<lparr>result = res, trace = ev0 @ ev1 @ ev2 @ ev3, arrays = h4\<rparr>)))
         | _ \<Rightarrow>
             (let (h1, ev2) = release_bytes_if_acquired ''num'' h num num_bytes;
                  (h2, ev3) = release_bytes_if_acquired ''den'' h1 den den_bytes
              in Inr \<lparr>result = - 1, trace = ev0 @ [Raised_OutOfMemory] @ ev2 @ ev3,
                      arrays = h2\<rparr>))"

subsection \<open>The connectives over term arrays\<close>

definition AUX_SIZE :: nat where
  "AUX_SIZE = 10"

text \<open>
  A Yices function called as \<^verbatim>\<open>f(n, a)\<close> reads and may reorder \<open>a[0..n-1]\<close>: it maps the
  elements to the elements as it leaves them and to the term, or \<open>None\<close> when it runs out of
  memory.
\<close>

type_synonym native_array_op = "jint list \<Rightarrow> jint list \<times> jint option"

text \<open>
  What \<^verbatim>\<open>cloneIntArray\<close> returns: \<^verbatim>\<open>NULL\<close>, the elements handed out by the virtual machine
  (with \<^verbatim>\<open>*copy\<close>), or a block from \<^verbatim>\<open>new int32_t[n]\<close>.
\<close>

datatype int_buffer = Null | Jvm_elems bool "jint list" | Heap_block "jint list"

text \<open>
  \<^verbatim>\<open>cloneIntArray\<close> tests the pointer \<^verbatim>\<open>copy\<close> itself (\<^verbatim>\<open>else if (!copy)\<close>), not the flag it
  points to: \<open>copy_is_null\<close> says whether that pointer is \<^verbatim>\<open>NULL\<close>.  Only then is the
  auxiliary array allocated and filled, and the elements released at once.
\<close>

definition cloneIntArray :: "jvm \<Rightarrow> string \<Rightarrow> jint list \<Rightarrow> bool \<Rightarrow> int_buffer \<times> event list" where
  "cloneIntArray env name a copy_is_null =
     (case GetArrayElements env name a of
        None \<Rightarrow> (Null, [Acquire_failed name, Raised_OutOfMemory])
      | Some (cp, b) \<Rightarrow>
          if copy_is_null then
            (let n = length a
             in if heap_ok env n
                then (Heap_block (take n b), [Acquired name, Released name JNI_ABORT])
                else (Null, [Acquired name, Raised_OutOfMemory, Released name JNI_ABORT]))
          else (Jvm_elems cp b, [Acquired name]))"

text \<open>
  \<^verbatim>\<open>freeClonedIntArray\<close> tests the same pointer: \<^verbatim>\<open>if (copy)\<close> releases the elements in
  abort mode, otherwise the block is deleted.
\<close>

definition freeClonedIntArray ::
    "string \<Rightarrow> jint list \<Rightarrow> int_buffer \<Rightarrow> bool \<Rightarrow> jint list \<times> event list" where
  "freeClonedIntArray name a aux copy_is_null =
     (if \<not> copy_is_null then
        (case aux of
           Jvm_elems cp b \<Rightarrow> (ReleaseArrayElements a (cp, b) JNI_ABORT, [Released name JNI_ABORT])
         | _ \<Rightarrow> (a, [Released name JNI_ABORT]))
      else (a, []))"

text \<open>
  The branch with the stack buffer \<^verbatim>\<open>int32_t aux[AUX_SIZE]\<close> (not initialised: \<open>junk\<close>):
  \<^verbatim>\<open>GetIntArrayRegion\<close> copies the \<open>n\<close> elements into it.
\<close>

definition stack_path ::
    "(nat \<Rightarrow> jint) \<Rightarrow> string \<Rightarrow> native_array_op \<Rightarrow> jint list \<Rightarrow> fault + (jint list) outcome" where
  "stack_path junk fname f arg =
     (let n = length arg
      in if AUX_SIZE < n then Inl Out_of_bounds
         else
           (let aux = write_at (map junk [0..<AUX_SIZE]) 0 arg;
                (aux1, r) = f (take n aux);
                (res, ev) = guarded r
            in Inr \<lparr>result = res,
                    trace = [Region_copied ''arg'', Called_native fname] @ ev,
                    arrays = arg\<rparr>))"

text \<open>
  The branch with \<^verbatim>\<open>cloneIntArray(env, arg, &copy)\<close>: the pointer \<^verbatim>\<open>&copy\<close> is never
  \<^verbatim>\<open>NULL\<close>.  The result of \<^verbatim>\<open>cloneIntArray\<close> is passed on without a test; the branch
  is entered with \<open>n\<close> at least \<open>AUX_SIZE\<close>, so the Yices function reads elements from it.
\<close>

definition heap_path ::
    "jvm \<Rightarrow> string \<Rightarrow> native_array_op \<Rightarrow> jint list \<Rightarrow> fault + (jint list) outcome" where
  "heap_path env fname f arg =
     (let n = length arg;
          (a, ev0) = cloneIntArray env ''arg'' arg False
      in case a of
           Null \<Rightarrow> Inl Null_pointer
         | Jvm_elems cp b \<Rightarrow>
             (let (b1, r) = f (take n b);
                  (res, ev1) = guarded r;
                  (arg1, ev2) = freeClonedIntArray ''arg'' arg (Jvm_elems cp b1) False
              in Inr \<lparr>result = res, trace = ev0 @ [Called_native fname] @ ev1 @ ev2,
                      arrays = arg1\<rparr>)
         | Heap_block b \<Rightarrow>
             (let (b1, r) = f (take n b);
                  (res, ev1) = guarded r;
                  (arg1, ev2) = freeClonedIntArray ''arg'' arg (Heap_block b1) False
              in Inr \<lparr>result = res, trace = ev0 @ [Called_native fname] @ ev1 @ ev2,
                      arrays = arg1\<rparr>))"

definition Yices_and :: "jvm \<Rightarrow> (nat \<Rightarrow> jint) \<Rightarrow> native_array_op \<Rightarrow> jint list \<Rightarrow> fault + (jint list) outcome" where
  "Yices_and env junk yices_and arg =
     (if length arg \<le> AUX_SIZE then stack_path junk ''yices_and'' yices_and arg
      else heap_path env ''yices_and'' yices_and arg)"

definition Yices_or :: "jvm \<Rightarrow> (nat \<Rightarrow> jint) \<Rightarrow> native_array_op \<Rightarrow> jint list \<Rightarrow> fault + (jint list) outcome" where
  "Yices_or env junk yices_or arg =
     (if length arg < AUX_SIZE then stack_path junk ''yices_or'' yices_or arg
      else heap_path env ''yices_or'' yices_or arg)"

definition Yices_xor :: "jvm \<Rightarrow> (nat \<Rightarrow> jint) \<Rightarrow> native_array_op \<Rightarrow> jint list \<Rightarrow> fault + (jint list) outcome" where
  "Yices_xor env junk yices_xor arg =
     (if length arg < AUX_SIZE then stack_path junk ''yices_xor'' yices_xor arg
      else heap_path env ''yices_xor'' yices_xor arg)"

definition Yices_distinct :: "jvm \<Rightarrow> (nat \<Rightarrow> jint) \<Rightarrow> native_array_op \<Rightarrow> jint list \<Rightarrow> fault + (jint list) outcome" where
  "Yices_distinct env junk yices_distinct arg =
     (if length arg < AUX_SIZE then stack_path junk ''yices_distinct'' yices_distinct arg
      else heap_path env ''yices_distinct'' yices_distinct arg)"

text \<open>
  The specification's reading of a connective: the operation applied to the elements of the
  input array, \<open>-1\<close> when it runs out of memory.
\<close>

definition connective_spec :: "native_array_op \<Rightarrow> jint list \<Rightarrow> jint" where
  "connective_spec f arg = (case snd (f arg) of Some t \<Rightarrow> t | None \<Rightarrow> - 1)"

subsection \<open>\<^verbatim>\<open>intPoly\<close> and \<^verbatim>\<open>rationalPoly\<close>\<close>

function all_positive_longs_from :: "nat \<Rightarrow> nat \<Rightarrow> jlong list \<Rightarrow> bool" where
  "all_positive_longs_from i n a =
     (if i < n then (if sint (a ! i) < 0 then False else all_positive_longs_from (i + 1) n a)
      else True)"
  by pat_completeness auto
termination
  by (relation "measure (\<lambda>(i, n, a). n - i)") auto

declare all_positive_longs_from.simps [simp del]

definition all_positive_longs :: "nat \<Rightarrow> jlong list \<Rightarrow> bool" where
  "all_positive_longs n a = all_positive_longs_from 0 n a"

text \<open>
  The Yices polynomial constructors take their arrays as \<^verbatim>\<open>const\<close>; the content of the
  caller's arrays is not part of the outcome here.
\<close>

definition intPoly ::
    "jvm \<Rightarrow> (jlong list \<Rightarrow> jint list \<Rightarrow> jint option) \<Rightarrow> jlong list \<Rightarrow> jint list \<Rightarrow> unit outcome" where
  "intPoly env yices_poly_int64 coeff t =
     (let n = length coeff
      in if n = length t then
           (let a = GetArrayElements env ''t'' t;
                c = GetArrayElements env ''coeff'' coeff;
                ev0 = [acq_event ''t'' a, acq_event ''coeff'' c];
                (res, ev1) =
                  (case (a, c) of
                     (Some (ca, ab), Some (cc, cb)) \<Rightarrow>
                       (let (r, ev) = guarded (yices_poly_int64 (take n cb) (take n ab))
                        in (r, [Called_native ''yices_poly_int64''] @ ev))
                   | _ \<Rightarrow> (- 1, [Raised_OutOfMemory]));
                ev2 = snd (release_if_acquired ''coeff'' coeff c);
                ev3 = snd (release_if_acquired ''t'' t a)
            in \<lparr>result = res, trace = ev0 @ ev1 @ ev2 @ ev3, arrays = ()\<rparr>)
         else \<lparr>result = - 1, trace = [], arrays = ()\<rparr>)"

definition rationalPoly ::
    "jvm \<Rightarrow> (jlong list \<Rightarrow> jlong list \<Rightarrow> jint list \<Rightarrow> jint option)
      \<Rightarrow> jlong list \<Rightarrow> jlong list \<Rightarrow> jint list \<Rightarrow> unit outcome" where
  "rationalPoly env yices_poly_rational64 num den t =
     (let n = length num
      in if n = length den \<and> n = length t then
           (let a = GetArrayElements env ''t'' t;
                p = GetArrayElements env ''num'' num;
                q = GetArrayElements env ''den'' den;
                ev0 = [acq_event ''t'' a, acq_event ''num'' p, acq_event ''den'' q];
                (res, ev1) =
                  (case (a, p, q) of
                     (Some (ca, ab), Some (cp, pb), Some (cq, qb)) \<Rightarrow>
                       if all_positive_longs n qb then
                         (let (r, ev) = guarded (yices_poly_rational64 (take n pb) (take n qb) (take n ab))
                          in (r, [Called_native ''yices_poly_rational64''] @ ev))
                       else (- 1, [])
                   | _ \<Rightarrow> (- 1, [Raised_OutOfMemory]));
                ev2 = snd (release_if_acquired ''den'' den q);
                ev3 = snd (release_if_acquired ''num'' num p);
                ev4 = snd (release_if_acquired ''t'' t a)
            in \<lparr>result = res, trace = ev0 @ ev1 @ ev2 @ ev3 @ ev4, arrays = ()\<rparr>)
         else \<lparr>result = - 1, trace = [], arrays = ()\<rparr>)"

section \<open>Bytes, big-endian numbers and negation\<close>

lemma unat_byte_lt: "unat (b::jbyte) < 256"
  using unsigned_less [of b, where 'a=nat] by simp

lemma uint_byte_lt: "uint (b::jbyte) < 256"
  using uint_lt2p [of b] by simp

lemma stb7:
  assumes "0 \<le> (k::int)" "k < 256"
  shows "signed_take_bit 7 k = (if k < 128 then k else k - 256)"
proof (cases "k < 128")
  case True
  then have "(k + 128) mod 256 = k + 128" using assms by simp
  then show ?thesis using True
    by (simp add: signed_take_bit_eq_take_bit_shift take_bit_eq_mod)
next
  case False
  have "k + 128 = (k - 128) + 256" by simp
  then have "(k + 128) mod 256 = ((k - 128) + 256) mod 256" by (simp only:)
  also have "\<dots> = (k - 128) mod 256" by (simp only: mod_add_self2)
  also have "\<dots> = k - 128" using False assms by simp
  finally show ?thesis using False
    by (simp add: signed_take_bit_eq_take_bit_shift take_bit_eq_mod)
qed

lemma sint_byte: "sint (b::jbyte) = (if uint b < 128 then uint b else uint b - 256)"
proof -
  have "sint b = signed_take_bit 7 (uint b)" by (simp add: sint_uint)
  then show ?thesis
    using uint_byte_lt [of b] uint_ge_0 [of b] stb7 [of "uint b"] by simp
qed

lemma sint_byte_neg: "sint (b::jbyte) < 0 \<longleftrightarrow> 128 \<le> unat b"
proof -
  have "uint b = int (unat b)" by simp
  then show ?thesis using uint_byte_lt [of b] unfolding sint_byte by (auto simp del: of_nat_unat)
qed

lemma bit7_byte: "bit (b::jbyte) 7 \<longleftrightarrow> 128 \<le> unat b"
  using bit_last_iff [of b] by (simp add: sint_byte_neg)

lemma xor255: "unat (b::jbyte) XOR 255 = 255 - unat b"
proof -
  have "unat b XOR 255 = unat (b XOR 255)"
    by (simp add: unsigned_xor_eq)
  also have "b XOR 255 = NOT b"
  proof -
    have "(255::8 word) = - 1" by simp
    then show ?thesis by (simp only: bit.xor_one_right)
  qed
  also have "NOT b = 255 - b" by (simp add: not_eq_complement)
  also have "unat (255 - b) = unat (255::8 word) - unat b"
    by (rule unat_sub) (simp add: word_le_nat_alt, use unat_byte_lt [of b] in simp)
  finally show ?thesis by simp
qed

lemma and255: "(n::nat) AND 255 = n mod 256"
proof -
  have m: "(255::nat) = mask 8" by (simp add: mask_eq_exp_minus_1)
  have "n AND mask 8 = take_bit 8 n" by (simp only: take_bit_eq_mask)
  also have "\<dots> = n mod 256" by (simp add: take_bit_eq_mod)
  finally show ?thesis by (simp only: m)
qed

lemma drop8: "drop_bit 8 (n::nat) = n div 256"
  by (simp add: drop_bit_eq_div)

lemma unat_of_nat_byte: "n < 256 \<Longrightarrow> unat (of_nat n :: jbyte) = n"
  by (simp add: unsigned_of_nat take_bit_eq_mod)

lemma be_val_append: "be_val (xs @ ys) = be_val xs * 256 ^ length ys + be_val ys"
  by (induction xs) (simp_all add: power_add algebra_simps)

lemma be_val_lt: "be_val xs < 256 ^ length xs"
proof (induction xs)
  case Nil
  show ?case by simp
next
  case (Cons x xs)
  have "unat x * 256 ^ length xs \<le> 255 * 256 ^ length xs"
    using unat_byte_lt [of x] by simp
  then have "unat x * 256 ^ length xs + be_val xs < 255 * 256 ^ length xs + 256 ^ length xs"
    using Cons by (rule add_le_less_mono)
  then show ?case by simp
qed

lemma negate_loop_Suc:
  "negate_loop b (Suc j) c =
     (let y = (255 - unat (b ! j)) + c;
          b1 = b[j := of_nat (y mod 256)]
      in if j > 0 then negate_loop b1 j (y div 256) else b1)"
  by (subst negate_loop.simps) (simp add: Let_def xor255 and255 drop8)

lemma negate_loop_length: "length (negate_loop b k c) = length b"
proof (induction k arbitrary: b c)
  case 0
  show ?case by (subst negate_loop.simps) (simp add: Let_def)
next
  case (Suc j)
  show ?case by (simp add: negate_loop_Suc Let_def Suc)
qed

lemma negate_loop_drop:
  "k \<le> length b \<Longrightarrow> 0 < k \<Longrightarrow> drop k (negate_loop b k c) = drop k b"
proof (induction k arbitrary: b c)
  case 0
  then show ?case by simp
next
  case (Suc j)
  show ?case
  proof (cases "j > 0")
    case True
    let ?y = "(255 - unat (b ! j)) + c"
    let ?b1 = "b[j := of_nat (?y mod 256)]"
    have "drop j (negate_loop ?b1 j (?y div 256)) = drop j ?b1"
      using Suc.IH [of ?b1 "?y div 256"] Suc.prems True by simp
    then have "drop (Suc j) (negate_loop ?b1 j (?y div 256)) = drop (Suc j) ?b1"
      by (metis drop_drop plus_1_eq_Suc)
    then show ?thesis using True by (simp add: negate_loop_Suc Let_def)
  next
    case False
    then show ?thesis by (simp add: negate_loop_Suc Let_def)
  qed
qed

lemma split_mod_256:
  fixes a v M :: int
  assumes "0 \<le> v" "v < 256" "0 \<le> M"
  shows "(256 * a + v) mod (256 * M) = 256 * (a mod M) + v"
proof -
  have d: "(256 * a + v) div 256 = a" using assms by simp
  have m: "(256 * a + v) mod 256 = v" using assms by simp
  show ?thesis using zmod_zmult2_eq [of M "256 * a + v" 256] assms by (simp only: d m)
qed

lemma neg_step_arith:
  fixes H l c c1 v P :: int
  assumes "255 - l + c = 256 * c1 + v" "0 \<le> v" "v < 256" "0 \<le> P"
  shows "(256 * P - 1 - (256 * H + l) + c) mod (256 * P) = 256 * ((P - 1 - H + c1) mod P) + v"
proof -
  have "256 * P - 1 - (256 * H + l) + c = 256 * (P - 1 - H) + (255 - l + c)"
    by (simp add: algebra_simps)
  also have "\<dots> = 256 * (P - 1 - H + c1) + v"
    unfolding assms(1) by (simp add: algebra_simps)
  finally have e: "256 * P - 1 - (256 * H + l) + c = 256 * (P - 1 - H + c1) + v" .
  show ?thesis unfolding e by (rule split_mod_256 [OF assms(2,3,4)])
qed

lemma negate_loop_val:
  "0 < k \<Longrightarrow> k \<le> length b \<Longrightarrow> c \<le> 1 \<Longrightarrow>
   int (be_val (take k (negate_loop b k c))) =
     (256 ^ k - 1 - int (be_val (take k b)) + int c) mod 256 ^ k"
proof (induction k arbitrary: b c)
  case 0
  then show ?case by simp
next
  case (Suc j)
  let ?l = "unat (b ! j)"
  let ?y = "(255 - ?l) + c"
  let ?v = "of_nat (?y mod 256) :: jbyte"
  let ?b1 = "b[j := ?v]"
  have l: "?l < 256" by (rule unat_byte_lt)
  have yi: "int ?y = 255 - int ?l + int c" using l by (simp add: of_nat_diff)
  have v: "unat ?v = ?y mod 256" by (simp add: unat_of_nat_byte)
  have jl: "j < length b" using Suc.prems by simp
  show ?case
  proof (cases "j > 0")
    case False
    then have j0: "j = 0" by simp
    have tb: "take 1 b = [b ! 0]" using jl j0 by (cases b) simp_all
    have "take (Suc j) (negate_loop b (Suc j) c) = [?v]"
      using jl j0 by (cases b) (simp_all add: negate_loop_Suc Let_def)
    then have "int (be_val (take (Suc j) (negate_loop b (Suc j) c))) = int (?y mod 256)"
      using v by (simp del: of_nat_unat)
    also have "\<dots> = int ?y mod 256" by (simp add: zmod_int)
    also have "\<dots> = (255 - int ?l + int c) mod 256" by (simp only: yi)
    finally show ?thesis using j0 tb by simp
  next
    case True
    let ?c1 = "?y div 256"
    let ?r = "negate_loop ?b1 j ?c1"
    let ?H = "int (be_val (take j b))"
    have c1: "?c1 \<le> 1" using Suc.prems l by simp
    have IH: "int (be_val (take j ?r)) = (256 ^ j - 1 - ?H + int ?c1) mod 256 ^ j"
      using Suc.IH [of ?b1 ?c1] True jl c1 by simp
    have "drop j ?r = drop j ?b1"
      using negate_loop_drop [of j ?b1 ?c1] True jl by simp
    then have "hd (drop j ?r) = hd (drop j ?b1)" by simp
    then have rj: "?r ! j = ?v"
      using jl by (simp add: hd_drop_conv_nth negate_loop_length)
    have "take (Suc j) ?r = take j ?r @ [?v]"
      using jl rj by (simp add: take_Suc_conv_app_nth negate_loop_length)
    then have lhs: "int (be_val (take (Suc j) ?r)) = 256 * int (be_val (take j ?r)) + int (?y mod 256)"
      using v by (simp add: be_val_append del: of_nat_unat)
    have "take (Suc j) b = take j b @ [b ! j]"
      using jl by (simp add: take_Suc_conv_app_nth)
    then have tb: "int (be_val (take (Suc j) b)) = 256 * ?H + int ?l"
      by (simp add: be_val_append del: of_nat_unat)
    have ydm: "255 - int ?l + int c = 256 * int ?c1 + int (?y mod 256)"
      unfolding yi [symmetric] by (simp add: zdiv_int zmod_int)
    have "(256 * 256 ^ j - 1 - (256 * ?H + int ?l) + int c) mod (256 * 256 ^ j)
          = 256 * ((256 ^ j - 1 - ?H + int ?c1) mod 256 ^ j) + int (?y mod 256)"
      by (rule neg_step_arith [OF ydm]) simp_all
    then have rhs: "(256 ^ Suc j - 1 - int (be_val (take (Suc j) b)) + int c) mod 256 ^ Suc j
          = 256 * int (be_val (take j ?r)) + int (?y mod 256)"
      unfolding tb IH by simp
    have "negate_loop b (Suc j) c = ?r"
      using True by (simp add: negate_loop_Suc Let_def)
    then show ?thesis using lhs rhs by simp
  qed
qed

lemma negate_bytes_val:
  assumes "b \<noteq> []"
  shows "\<exists>b1. negate_bytes b (length b) = Inr b1 \<and> length b1 = length b \<and>
              int (be_val b1) = (256 ^ length b - int (be_val b)) mod 256 ^ length b"
proof -
  have n: "0 < length b" using assms by simp
  have "int (be_val (take (length b) (negate_loop b (length b) 1)))
          = (256 ^ length b - 1 - int (be_val (take (length b) b)) + int 1) mod 256 ^ length b"
    by (rule negate_loop_val) (use n in simp_all)
  then have "int (be_val (negate_loop b (length b) 1))
          = (256 ^ length b - int (be_val b)) mod 256 ^ length b"
    by (simp add: negate_loop_length)
  then show ?thesis using n by (simp add: negate_bytes_def negate_loop_length)
qed

lemma be_val_hd_ge:
  assumes "b \<noteq> []" "128 \<le> unat (hd b)"
  shows "128 * 256 ^ (length b - 1) \<le> be_val b"
proof -
  obtain x xs where b: "b = x # xs" using assms(1) by (cases b) auto
  have "128 \<le> unat x" using assms(2) b by simp
  then have "128 * 256 ^ length xs \<le> unat x * 256 ^ length xs" by (rule mult_le_mono1)
  then have "128 * 256 ^ length xs \<le> unat x * 256 ^ length xs + be_val xs" by (rule trans_le_add1)
  then show ?thesis unfolding b by simp
qed

lemma byte_array_to_mpz_tc:
  assumes "b \<noteq> []"
  shows "\<exists>b1. byte_array_to_mpz b (length b) = Inr (tc_val b, b1)"
proof (cases "sint (b ! 0) < 0")
  case False
  then have "\<not> bit (hd b) 7" using assms by (simp add: bit7_byte sint_byte_neg hd_conv_nth)
  then show ?thesis using False assms
    by (simp add: byte_array_to_mpz_def tc_val_def mpz_import_def)
next
  case True
  then have h: "128 \<le> unat (hd b)" using assms by (simp add: sint_byte_neg hd_conv_nth)
  then have b7: "bit (hd b) 7" by (simp add: bit7_byte)
  obtain b1 where b1: "negate_bytes b (length b) = Inr b1" "length b1 = length b"
      "int (be_val b1) = (256 ^ length b - int (be_val b)) mod 256 ^ length b"
    using negate_bytes_val [OF assms] by blast
  have "0 < (128::nat) * 256 ^ (length b - 1)" by simp
  then have pos: "0 < be_val b" using be_val_hd_ge [OF assms h] by linarith
  have lt: "be_val b < 256 ^ length b" by (rule be_val_lt)
  have "(256 ^ length b - int (be_val b)) mod 256 ^ length b = 256 ^ length b - int (be_val b)"
    by (rule mod_pos_pos_trivial) (use pos lt in simp_all)
  then have "- mpz_import (length b) b1 = tc_val b"
    using b1 assms b7 by (simp add: mpz_import_def tc_val_def)
  then show ?thesis using True assms b1 by (simp add: byte_array_to_mpz_def)
qed

lemma decoded_tc: "b \<noteq> [] \<Longrightarrow> decoded b = Inr (tc_val b)"
  using byte_array_to_mpz_tc [of b] by (auto simp add: decoded_def)

lemma be_val_replicate_0: "be_val (replicate k 0 @ xs) = be_val xs"
  by (induction k) simp_all

lemma unat_255: "unat (255 :: jbyte) = 255"
  by simp

lemma be_val_replicate_255:
  "int (be_val (replicate k 255 @ xs)) = int (be_val xs) + (256 ^ k - 1) * 256 ^ length xs"
proof (induction k)
  case 0
  show ?case by simp
next
  case (Suc k)
  have "int (be_val (replicate (Suc k) 255 @ xs))
        = 255 * 256 ^ (k + length xs) + int (be_val (replicate k 255 @ xs))"
    by (simp add: unat_255 del: of_nat_unat)
  also have "\<dots> = 255 * 256 ^ (k + length xs) + (int (be_val xs) + (256 ^ k - 1) * 256 ^ length xs)"
    by (simp only: Suc)
  also have "\<dots> = int (be_val xs) + (256 ^ Suc k - 1) * 256 ^ length xs"
    by (simp add: algebra_simps power_add)
  finally show ?case .
qed

lemma tc_val_zero_pad: "\<not> bit b 7 \<Longrightarrow> tc_val (replicate k 0 @ b # bs) = tc_val (b # bs)"
proof -
  assume b: "\<not> bit b 7"
  then have "\<not> bit (hd (replicate k 0 @ b # bs)) 7" by (cases k) simp_all
  then show ?thesis using b
    by (simp add: tc_val_def be_val_replicate_0 del: be_val.simps)
qed

lemma tc_val_sign_pad: "bit b 7 \<Longrightarrow> tc_val (replicate k 255 @ b # bs) = tc_val (b # bs)"
proof -
  assume b: "bit b 7"
  have "bit (255 :: jbyte) 7" by (simp add: bit7_byte)
  then have "bit (hd (replicate k 255 @ b # bs)) 7" using b by (cases k) simp_all
  then show ?thesis using b
    by (simp add: tc_val_def be_val_replicate_255 algebra_simps power_add)
qed

lemma bitlen_0_iff: "bitlen m = 0 \<longleftrightarrow> m = 0"
  by (subst bitlen.simps) simp

lemma bitlen_le_iff: "bitlen m \<le> k \<longleftrightarrow> m < 2 ^ k"
proof (induction k arbitrary: m)
  case 0
  show ?case using bitlen_0_iff [of m] by simp
next
  case (Suc k)
  show ?case
  proof (cases "m = 0")
    case True
    then show ?thesis by (simp add: bitlen_0_iff [THEN iffD2])
  next
    case False
    then have "bitlen m = Suc (bitlen (m div 2))" by (subst bitlen.simps) simp
    then have "bitlen m \<le> Suc k \<longleftrightarrow> m div 2 < 2 ^ k" using Suc [of "m div 2"] by simp
    also have "\<dots> \<longleftrightarrow> m < 2 ^ Suc k" by (simp add: div_less_iff_less_mult mult.commute)
    finally show ?thesis .
  qed
qed

lemma length_be_bytes_le_iff: "length (be_bytes m) \<le> j \<longleftrightarrow> m < 256 ^ j"
proof (induction j arbitrary: m)
  case 0
  show ?case by (subst be_bytes.simps) simp
next
  case (Suc j)
  show ?case
  proof (cases "m = 0")
    case True
    then show ?thesis by (subst be_bytes.simps) simp
  next
    case False
    then have "length (be_bytes m) = Suc (length (be_bytes (m div 256)))"
      by (subst be_bytes.simps) simp
    then have "length (be_bytes m) \<le> Suc j \<longleftrightarrow> m div 256 < 256 ^ j"
      using Suc [of "m div 256"] by simp
    also have "\<dots> \<longleftrightarrow> m < 256 ^ Suc j" by (simp add: div_less_iff_less_mult mult.commute)
    finally show ?thesis .
  qed
qed

lemma length_be_bytes: "length (be_bytes m) = (bitlen m + 7) div 8"
proof (rule antisym)
  have "bitlen m \<le> 8 * ((bitlen m + 7) div 8)" by simp
  then have "m < 2 ^ (8 * ((bitlen m + 7) div 8))" by (simp only: bitlen_le_iff)
  then have "m < 256 ^ ((bitlen m + 7) div 8)" by (simp add: power_mult)
  then show "length (be_bytes m) \<le> (bitlen m + 7) div 8" by (simp only: length_be_bytes_le_iff)
next
  have "m < 256 ^ length (be_bytes m)" using length_be_bytes_le_iff [of m "length (be_bytes m)"] by simp
  then have "m < 2 ^ (8 * length (be_bytes m))" by (simp add: power_mult)
  then have "bitlen m \<le> 8 * length (be_bytes m)" by (simp only: bitlen_le_iff)
  then show "(bitlen m + 7) div 8 \<le> length (be_bytes m)" by simp
qed

lemma be_val_be_bytes: "be_val (be_bytes m) = m"
proof (induction m rule: be_bytes.induct)
  case (1 n)
  show ?case
  proof (cases "n = 0")
    case True
    then show ?thesis by (subst be_bytes.simps) simp
  next
    case False
    have "be_val (be_bytes n) = be_val (be_bytes (n div 256) @ [of_nat (n mod 256)])"
      using False by (subst be_bytes.simps) simp
    also have "\<dots> = (n div 256) * 256 + n mod 256"
      using 1 [OF False] by (simp add: be_val_append unat_of_nat_byte)
    finally show ?thesis by simp
  qed
qed

lemma be_bytes_hd: "0 < m \<Longrightarrow> \<exists>x xs. be_bytes m = x # xs \<and> x \<noteq> 0"
proof (induction m rule: be_bytes.induct)
  case (1 n)
  then have n0: "n \<noteq> 0" by simp
  have e: "be_bytes n = be_bytes (n div 256) @ [of_nat (n mod 256)]"
    using n0 by (subst be_bytes.simps) simp
  show ?case
  proof (cases "n div 256 = 0")
    case True
    then have "n < 256" by (simp add: div_eq_0_iff)
    then have "unat (of_nat (n mod 256) :: jbyte) = n" by (simp add: unat_of_nat_byte)
    then have "(of_nat (n mod 256) :: jbyte) \<noteq> 0" using n0 by auto
    moreover have "be_bytes (n div 256) = []" using True by (subst be_bytes.simps) simp
    ultimately show ?thesis using e by simp
  next
    case False
    then obtain x xs where "be_bytes (n div 256) = x # xs" "x \<noteq> 0"
      using 1(1) [OF n0] by auto
    then show ?thesis using e by simp
  qed
qed

lemma enc_nbytes_nonzero:
  "z \<noteq> 0 \<Longrightarrow> enc_nbytes z = Suc (length (be_bytes (nat \<bar>z\<bar>)))"
  by (simp add: enc_nbytes_def mpz_sizeinbase2_def length_be_bytes drop_bit_eq_div)

lemma enc_nbytes_zero: "enc_nbytes 0 = 2"
  by (simp add: enc_nbytes_def mpz_sizeinbase2_def drop_bit_eq_div)

lemma be_bytes_0: "be_bytes 0 = []"
  by (subst be_bytes.simps) simp

lemma scratch_zero:
  "write_at ((map junk [0..<2])[0 := 0, 1 := 0]) 1 (mpz_export 0) = [0, 0 :: jbyte]"
proof -
  have "[0..<2] = [0, 1]" by (simp add: upt_rec)
  then show ?thesis by (simp add: write_at_def mpz_export_def be_bytes_0)
qed

lemma scratch_nonzero:
  assumes "z \<noteq> 0"
  shows "write_at ((map junk [0..<enc_nbytes z])[0 := 0, 1 := 0]) 1 (mpz_export z)
           = 0 # be_bytes (nat \<bar>z\<bar>)"
proof -
  let ?E = "be_bytes (nat \<bar>z\<bar>)"
  let ?buf = "(map junk [0..<Suc (length ?E)])[0 := 0, 1 := 0]"
  have len: "length ?buf = Suc (length ?E)" by simp
  have "?buf ! 0 = 0" 
    by (cases "length ?E") (simp_all add: upt_rec nth_list_update)
  then have "take 1 ?buf = [0]"
    using len by (metis One_nat_def length_0_conv  take_Suc_conv_app_nth take_0 append_Nil zero_less_Suc)
  moreover have "drop (Suc (length ?E)) ?buf = []" using len by simp
  ultimately show ?thesis using assms
    by (simp add: write_at_def mpz_export_def enc_nbytes_nonzero)
qed

lemma mpz_to_byte_array_eval:
  assumes "enc_nbytes z \<le> INT32_MAX" "enc_nbytes z \<le> 32 \<or> heap_ok env (enc_nbytes z)"
    and "(if mpz_sgn z < 0
          then negate_bytes (write_at ((map junk [0..<enc_nbytes z])[0 := 0, 1 := 0]) 1 (mpz_export z))
                 (enc_nbytes z)
          else Inr (write_at ((map junk [0..<enc_nbytes z])[0 := 0, 1 := 0]) 1 (mpz_export z)))
         = Inr aux"
    and "length aux = enc_nbytes z"
    and "new_array_ok env (length (strip_lead aux))"
  shows "mpz_to_byte_array env junk z = Inr (Some (strip_lead aux))"
proof (cases "(aux ! 0 = 0 \<and> 0 \<le> sint (aux ! 1)) \<or> (aux ! 0 = - 1 \<and> sint (aux ! 1) < 0)")
  case True
  have s: "strip_lead aux = drop 1 aux" by (simp only: strip_lead_def True if_True)
  then have "new_array_ok env (enc_nbytes z - 1)" using assms(4,5) by simp
  then show ?thesis
    using assms(1,2,3,4) True unfolding s mpz_to_byte_array_def enc_nbytes_def [symmetric] Let_def
    by (simp del: upt_Suc)
next
  case False
  have s: "strip_lead aux = aux" by (simp only: strip_lead_def False if_False)
  then have "new_array_ok env (enc_nbytes z)" using assms(4,5) by simp
  then show ?thesis
    using assms(1,2,3,4) False unfolding s mpz_to_byte_array_def enc_nbytes_def [symmetric] Let_def
    by (auto simp del: upt_Suc)
qed

lemma length_strip_lead:
  "length (strip_lead aux) = length aux \<or> length (strip_lead aux) = length aux - 1"
  by (simp add: strip_lead_def)

lemma mpz_to_byte_array_unfold:
  assumes "enc_nbytes z \<le> INT32_MAX" "enc_nbytes z \<le> 32 \<or> heap_ok env (enc_nbytes z)"
    and "new_array_ok env (enc_nbytes z)" "new_array_ok env (enc_nbytes z - 1)"
    and "(if mpz_sgn z < 0
          then negate_bytes (write_at ((map junk [0..<enc_nbytes z])[0 := 0, 1 := 0]) 1 (mpz_export z))
                 (enc_nbytes z)
          else Inr (write_at ((map junk [0..<enc_nbytes z])[0 := 0, 1 := 0]) 1 (mpz_export z)))
         = Inr aux"
    and "length aux = enc_nbytes z"
  shows "mpz_to_byte_array env junk z = Inr (Some (strip_lead aux))"
proof -
  have "new_array_ok env (length (strip_lead aux))"
    using length_strip_lead [of aux] assms(3,4,6) by auto
  then show ?thesis using assms(1,2,5,6) by (intro mpz_to_byte_array_eval)
qed

lemma sint_nonneg_bit7: "0 \<le> sint (b::jbyte) \<longleftrightarrow> \<not> bit b 7"
  using sint_byte_neg [of b] bit7_byte [of b] by auto

lemma strip_lead_Cons:
  "strip_lead (a # b # bs) =
     (if (a = 0 \<and> \<not> bit b 7) \<or> (a = 255 \<and> bit b 7) then b # bs else a # b # bs)"
proof -
  have "(- 1 :: jbyte) = 255" by simp
  then show ?thesis
    by (simp add: strip_lead_def sint_nonneg_bit7 sint_byte_neg bit7_byte)
qed

lemma byte_eq_255: "unat (a::jbyte) = 255 \<Longrightarrow> a = 255"
proof -
  assume "unat a = 255"
  then have "unat a = unat (255::jbyte)" by simp
  then show ?thesis by (simp only: word_unat_eq_iff [symmetric])
qed

lemma negate_lead:
  assumes m: "0 < be_val E" and lt: "be_val E < 256 ^ length E"
  shows "\<exists>A. negate_bytes (0 # E) (Suc (length E)) = Inr (255 # A) \<and> length A = length E \<and>
             int (be_val A) = 256 ^ length E - int (be_val E)"
proof -
  let ?P = "256 ^ length E :: int"
  let ?m = "int (be_val E)"
  obtain N where N: "negate_bytes (0 # E) (length (0 # E)) = Inr N" "length N = length (0 # E)"
      "int (be_val N) = (256 ^ length (0 # E) - int (be_val (0 # E))) mod 256 ^ length (0 # E)"
    using negate_bytes_val [of "0 # E"] by blast
  have mi: "0 < ?m" "?m < ?P" using m lt by simp_all
  have "(256 * ?P - ?m) mod (256 * ?P) = 256 * ?P - ?m"
    by (rule mod_pos_pos_trivial) (use mi in linarith)+
  then have val: "int (be_val N) = 256 * ?P - ?m" using N(3) by simp
  obtain a0 A where NA: "N = a0 # A" "length A = length E"
    using N(2) by (cases N) simp_all
  have Alt: "int (be_val A) < ?P"
    using be_val_lt [of A] NA(2) by simp
  have sum: "int (unat a0) * ?P + int (be_val A) = 256 * ?P - ?m"
    using val NA by (simp del: of_nat_unat)
  have a_le: "unat a0 \<le> 255" using unat_byte_lt [of a0] by simp
  have "unat a0 = 255"
  proof (rule ccontr)
    assume "unat a0 \<noteq> 255"
    then have "unat a0 \<le> 254" using a_le by simp
    then have "int (unat a0) \<le> 254" by (simp del: of_nat_unat)
    then have "int (unat a0) * ?P \<le> 254 * ?P" by (rule mult_right_mono) simp
    then show False using sum Alt mi by linarith
  qed
  then have a0: "a0 = 255" by (rule byte_eq_255)
  have "int (unat a0) = 255" using \<open>unat a0 = 255\<close> by (simp del: of_nat_unat)
  then have "int (be_val A) = ?P - ?m" using sum by (simp del: of_nat_unat)
  then show ?thesis using N(1) NA a0 by simp
qed

lemma be_bytes_bounds:
  assumes "0 < m"
  shows "\<exists>e0 es. be_bytes m = e0 # es \<and> e0 \<noteq> 0 \<and> 256 ^ length es \<le> m \<and> m < 256 * 256 ^ length es"
proof -
  obtain e0 es where E: "be_bytes m = e0 # es" "e0 \<noteq> 0" using be_bytes_hd [OF assms] by blast
  have "unat e0 \<noteq> 0" using E(2) by (simp add: unat_eq_0)
  then have "1 \<le> unat e0" by simp
  then have "1 * 256 ^ length es \<le> unat e0 * 256 ^ length es" by (rule mult_le_mono1)
  then have "1 * 256 ^ length es \<le> unat e0 * 256 ^ length es + be_val es" by (rule trans_le_add1)
  then have "256 ^ length es \<le> be_val (e0 # es)" by simp
  moreover have "be_val (e0 # es) < 256 ^ length (e0 # es)" by (rule be_val_lt)
  ultimately show ?thesis using E be_val_be_bytes [of m] by simp
qed

lemma enc_zero:
  assumes "new_array_ok env (enc_nbytes 0 - 1)"
  shows "mpz_to_byte_array env junk 0 = Inr (Some [0])"
proof -
  have "[0..<2] = [0, 1]" by (simp add: upt_rec)
  then show ?thesis using assms scratch_zero [of junk]
    unfolding mpz_to_byte_array_def Let_def enc_nbytes_def
    by (simp add: mpz_sizeinbase2_def mpz_sgn_def drop_bit_eq_div mpz_export_def be_bytes_0 write_at_def)
qed

lemma enc_pos:
  assumes z: "0 < z"
    and H: "enc_nbytes z \<le> INT32_MAX" "enc_nbytes z \<le> 32 \<or> heap_ok env (enc_nbytes z)"
      "new_array_ok env (enc_nbytes z)" "new_array_ok env (enc_nbytes z - 1)"
  shows "\<exists>bs. mpz_to_byte_array env junk z = Inr (Some bs) \<and> tc_val bs = z \<and> minimal bs"
proof -
  let ?m = "nat \<bar>z\<bar>"
  have m: "0 < ?m" "int ?m = z" using z by simp_all
  obtain e0 es where E: "be_bytes ?m = e0 # es" "e0 \<noteq> 0"
    using be_bytes_bounds [OF m(1)] by blast
  have bv: "int (be_val (e0 # es)) = z" using be_val_be_bytes [of ?m] E m by simp
  have z0: "z \<noteq> 0" using z by simp
  have aux: "write_at ((map junk [0..<enc_nbytes z])[0 := 0, 1 := 0]) 1 (mpz_export z) = 0 # e0 # es"
    using scratch_nonzero [OF z0, of junk] E by simp
  have len: "length (0 # e0 # es) = enc_nbytes z"
    using enc_nbytes_nonzero [OF z0] E by simp
  have sg: "\<not> mpz_sgn z < 0" using z by (simp add: mpz_sgn_def)
  have res: "mpz_to_byte_array env junk z = Inr (Some (strip_lead (0 # e0 # es)))"
    by (rule mpz_to_byte_array_unfold [OF H _ len]) (simp only: sg aux if_False)
  show ?thesis
  proof (cases "bit e0 7")
    case True
    then have s: "strip_lead (0 # e0 # es) = 0 # e0 # es" by (simp add: strip_lead_Cons)
    have "tc_val (0 # e0 # es) = z" using bv by (simp add: tc_val_def del: of_nat_unat of_nat_add of_nat_mult)
    moreover have "minimal (0 # e0 # es)" using True by (simp add: minimal_def)
    ultimately show ?thesis using res s by simp
  next
    case False
    then have s: "strip_lead (0 # e0 # es) = e0 # es" by (simp add: strip_lead_Cons)
    have ne: "e0 \<noteq> 255" using False by (auto simp add: bit7_byte)
    have "tc_val (e0 # es) = z" using bv False by (simp add: tc_val_def del: of_nat_unat of_nat_add of_nat_mult)
    moreover have "minimal (e0 # es)" using E(2) ne by (cases es) (simp_all add: minimal_def)
    ultimately show ?thesis using res s by simp
  qed
qed

lemma bit7_255: "bit (255 :: jbyte) 7"
  by (simp add: bit7_byte)

lemma enc_neg:
  assumes z: "z < 0"
    and H: "enc_nbytes z \<le> INT32_MAX" "enc_nbytes z \<le> 32 \<or> heap_ok env (enc_nbytes z)"
      "new_array_ok env (enc_nbytes z)" "new_array_ok env (enc_nbytes z - 1)"
  shows "\<exists>bs. mpz_to_byte_array env junk z = Inr (Some bs) \<and> tc_val bs = z \<and> minimal bs"
proof -
  let ?m = "nat \<bar>z\<bar>"
  have m: "0 < ?m" "int ?m = - z" using z by simp_all
  obtain e0 es where E: "be_bytes ?m = e0 # es" "e0 \<noteq> 0" "256 ^ length es \<le> ?m"
    using be_bytes_bounds [OF m(1)] by blast
  let ?E = "e0 # es"
  have bE: "be_val ?E = ?m" using be_val_be_bytes [of ?m] E by simp
  have z0: "z \<noteq> 0" using z by simp
  have aux: "write_at ((map junk [0..<enc_nbytes z])[0 := 0, 1 := 0]) 1 (mpz_export z) = 0 # ?E"
    using scratch_nonzero [OF z0, of junk] E by simp
  have nb: "enc_nbytes z = Suc (length ?E)"
    using enc_nbytes_nonzero [OF z0] E by simp
  have sg: "mpz_sgn z < 0" using z by (simp add: mpz_sgn_def)
  have "0 < be_val ?E" using bE m(1) by simp
  moreover have "be_val ?E < 256 ^ length ?E" by (rule be_val_lt)
  ultimately obtain A where A: "negate_bytes (0 # ?E) (Suc (length ?E)) = Inr (255 # A)"
      "length A = length ?E" "int (be_val A) = 256 ^ length ?E - int (be_val ?E)"
    using negate_lead [of ?E] by blast
  have len: "length (255 # A) = enc_nbytes z" using nb A(2) by simp
  have res: "mpz_to_byte_array env junk z = Inr (Some (strip_lead (255 # A)))"
    by (rule mpz_to_byte_array_unfold [OF H _ len]) (simp only: sg aux if_True, simp only: nb A(1))
  obtain a1 A' where A': "A = a1 # A'" "length A' = length es"
    using A(2) by (cases A) simp_all
  have bEi: "int (be_val ?E) = - z" unfolding bE by (rule m(2))
  have vA: "int (be_val A) = 256 * 256 ^ length es + z"
    using A(3) unfolding bEi by simp
  have mP: "256 ^ length es \<le> - z"
    using E(3) m(2) by (metis of_nat_le_iff of_nat_numeral of_nat_power)
  show ?thesis
  proof (cases "bit a1 7")
    case True
    then have s: "strip_lead (255 # A) = A" using A'(1) by (simp add: strip_lead_Cons)
    have "tc_val A = int (be_val A) - 256 ^ length A"
      using True A'(1) by (simp add: tc_val_def)
    then have tc: "tc_val A = z" using vA A(2) by simp
    have "\<not> redundant_lead A"
    proof (cases A')
      case Nil
      then show ?thesis using A'(1) by simp
    next
      case (Cons a2 A'')
      have a10: "a1 \<noteq> 0" using True by auto
      have "\<not> (a1 = 255 \<and> bit a2 7)"
      proof
        assume c: "a1 = 255 \<and> bit a2 7"
        let ?Q = "256 ^ length A'' :: int"
        have les: "length es = Suc (length A'')" using A'(2) Cons by simp
        have "128 * 256 ^ (length A' - 1) \<le> be_val A'"
          by (rule be_val_hd_ge) (use c Cons in \<open>simp_all add: bit7_byte\<close>)
        then have "128 * 256 ^ length A'' \<le> be_val A'" using Cons by simp
        then have "int (128 * 256 ^ length A'') \<le> int (be_val A')" by (simp only: of_nat_le_iff)
        then have lo: "128 * ?Q \<le> int (be_val A')" by simp
        have "be_val A = 255 * 256 ^ length A' + be_val A'"
          using c A'(1) by (simp add: unat_255)
        then have "int (be_val A) = int (255 * 256 ^ length A' + be_val A')" by (simp only:)
        then have "int (be_val A) = 255 * (256 * ?Q) + int (be_val A')"
          using Cons by simp
        moreover have "int (be_val A) = 256 * (256 * ?Q) + z" using vA les by simp
        moreover have "256 * ?Q \<le> - z" using mP les by simp
        moreover have "0 < ?Q" by simp
        ultimately show False using lo by linarith
      qed
      then show ?thesis using a10 A'(1) Cons by simp
    qed
    then have "minimal A" using A'(1) by (simp add: minimal_def)
    then show ?thesis using res s tc by simp
  next
    case False
    then have s: "strip_lead (255 # A) = 255 # A" using A'(1) by (simp add: strip_lead_Cons)
    have "be_val (255 # A) = 255 * 256 ^ length A + be_val A" by (simp add: unat_255)
    then have "int (be_val (255 # A)) = int (255 * 256 ^ length A + be_val A)" by (simp only:)
    then have "int (be_val (255 # A)) = 255 * (256 * 256 ^ length es) + int (be_val A)"
      using A(2) by simp
    moreover have "tc_val (255 # A) = int (be_val (255 # A)) - 256 * (256 * 256 ^ length es)"
      using A(2) by (simp add: tc_val_def bit7_255 del: be_val.simps)
    ultimately have tc: "tc_val (255 # A) = z" using vA by linarith
    have "minimal (255 # A)" using False A'(1) by (simp add: minimal_def)
    then show ?thesis using res s tc by simp
  qed
qed

lemma minimal_nonempty: "minimal bs \<Longrightarrow> bs \<noteq> []"
  by (simp add: minimal_def)

section \<open>Round trip of the codec\<close>

text \<open>
  Claim C1.  For every integer \<open>z\<close> whose scratch buffer fits the byte-length range
  (\<open>enc_nbytes z\<close> is at most \<^verbatim>\<open>INT32_MAX\<close>) and for which the two allocations succeed,
  \<^verbatim>\<open>mpz_to_byte_array\<close> returns a byte array; \<^verbatim>\<open>byte_array_to_mpz\<close> applied to that array
  yields \<open>z\<close> again; and the array is minimal: it is not empty, it has no leading \<^verbatim>\<open>0x00\<close>
  followed by a byte with a clear high bit and no leading \<^verbatim>\<open>0xFF\<close> followed by a byte with a
  set high bit.  The content of the scratch buffer before it is written does not matter.
\<close>

theorem roundtrip_minimal:
  assumes "enc_nbytes z \<le> INT32_MAX" "enc_nbytes z \<le> 32 \<or> heap_ok env (enc_nbytes z)"
    and "new_array_ok env (enc_nbytes z)" "new_array_ok env (enc_nbytes z - 1)"
  shows "\<exists>bs. mpz_to_byte_array env junk z = Inr (Some bs) \<and> decoded bs = Inr z \<and> minimal bs"
proof -
  have "\<exists>bs. mpz_to_byte_array env junk z = Inr (Some bs) \<and> tc_val bs = z \<and> minimal bs"
  proof (cases "z = 0")
    case True
    have "tc_val [0] = 0" by (simp add: tc_val_def)
    moreover have "minimal [0]" by (simp add: minimal_def)
    ultimately show ?thesis using True enc_zero [of env junk] assms(4) by simp
  next
    case False
    then consider "0 < z" | "z < 0" by linarith
    then show ?thesis
    proof cases
      case 1
      then show ?thesis using assms by (rule enc_pos)
    next
      case 2
      then show ?thesis using assms by (rule enc_neg)
    qed
  qed
  then obtain bs where "mpz_to_byte_array env junk z = Inr (Some bs)" "tc_val bs = z" "minimal bs"
    by blast
  then show ?thesis using decoded_tc [of bs] minimal_nonempty [of bs] by auto
qed

theorem roundtrip_minimal_witness:
  "enc_nbytes (- 256) \<le> INT32_MAX \<and> enc_nbytes (- 256) \<le> 32 \<and>
   (\<exists>bs. mpz_to_byte_array
            \<lparr>acquire = (\<lambda>_. AcqCopy), new_array_ok = (\<lambda>_. True), heap_ok = (\<lambda>_. False)\<rparr>
            (\<lambda>_. 85) (- 256) = Inr (Some bs)
        \<and> decoded bs = Inr (- 256) \<and> minimal bs)"
proof -
  have n: "enc_nbytes (- 256) = 3" by code_simp
  have h1: "enc_nbytes (- 256) \<le> INT32_MAX" by (simp add: n INT32_MAX_def)
  have h2: "enc_nbytes (- 256) \<le> 32 \<or>
      heap_ok \<lparr>acquire = (\<lambda>_. AcqCopy), new_array_ok = (\<lambda>_. True), heap_ok = (\<lambda>_. False)\<rparr>
        (enc_nbytes (- 256))" by (simp add: n)
  show ?thesis
    using roundtrip_minimal [OF h1 h2, of "\<lambda>_. 85"] h1 by (simp add: n)
qed

lemma enc_eval_pos:
  assumes "0 < z"
    and H: "enc_nbytes z \<le> INT32_MAX" "enc_nbytes z \<le> 32 \<or> heap_ok env (enc_nbytes z)"
    and A: "new_array_ok env (length (strip_lead (0 # be_bytes (nat \<bar>z\<bar>))))"
  shows "mpz_to_byte_array env junk z = Inr (Some (strip_lead (0 # be_bytes (nat \<bar>z\<bar>))))"
proof -
  have z0: "z \<noteq> 0" using assms(1) by simp
  have sg: "\<not> mpz_sgn z < 0" using assms(1) by (simp add: mpz_sgn_def)
  have len: "length (0 # be_bytes (nat \<bar>z\<bar>)) = enc_nbytes z"
    using enc_nbytes_nonzero [OF z0] by simp
  show ?thesis
    by (rule mpz_to_byte_array_eval [OF H _ len A]) (simp only: sg if_False scratch_nonzero [OF z0])
qed

lemma enc_eval_neg:
  assumes "z < 0"
    and H: "enc_nbytes z \<le> INT32_MAX" "enc_nbytes z \<le> 32 \<or> heap_ok env (enc_nbytes z)"
    and N: "negate_bytes (0 # be_bytes (nat \<bar>z\<bar>)) (enc_nbytes z) = Inr aux"
    and A: "new_array_ok env (length (strip_lead aux))"
  shows "mpz_to_byte_array env junk z = Inr (Some (strip_lead aux))"
proof -
  have z0: "z \<noteq> 0" using assms(1) by simp
  have sg: "mpz_sgn z < 0" using assms(1) by (simp add: mpz_sgn_def)
  have "length aux = length (0 # be_bytes (nat \<bar>z\<bar>))" using N
    by (auto simp add: negate_bytes_def negate_loop_length split: if_splits)
  then have len: "length aux = enc_nbytes z" using enc_nbytes_nonzero [OF z0] by simp
  show ?thesis
    by (rule mpz_to_byte_array_eval [OF H _ len A]) (simp only: sg if_True scratch_nonzero [OF z0] N)
qed

section \<open>The canonical examples\<close>

text \<open>
  Claim C2.  Whenever \<^verbatim>\<open>NewByteArray\<close> succeeds for one and two bytes, \<^verbatim>\<open>mpz_to_byte_array\<close>
  produces exactly these big-endian two's-complement byte sequences:
  127 gives \<^verbatim>\<open>[0x7F]\<close>, -127 gives \<^verbatim>\<open>[0x81]\<close>, 128 gives \<^verbatim>\<open>[0x00, 0x80]\<close>, -128 gives
  \<^verbatim>\<open>[0x80]\<close>, 255 gives \<^verbatim>\<open>[0x00, 0xFF]\<close>, -255 gives \<^verbatim>\<open>[0xFF, 0x01]\<close>, 256 gives
  \<^verbatim>\<open>[0x01, 0x00]\<close>, -256 gives \<^verbatim>\<open>[0xFF, 0x00]\<close> and 0 gives the single byte \<^verbatim>\<open>0x00\<close>.
\<close>

theorem canonical_examples:
  assumes "new_array_ok env 1" "new_array_ok env 2"
  shows "mpz_to_byte_array env junk 127 = Inr (Some [0x7F])
       \<and> mpz_to_byte_array env junk (- 127) = Inr (Some [0x81])
       \<and> mpz_to_byte_array env junk 128 = Inr (Some [0x00, 0x80])
       \<and> mpz_to_byte_array env junk (- 128) = Inr (Some [0x80])
       \<and> mpz_to_byte_array env junk 255 = Inr (Some [0x00, 0xFF])
       \<and> mpz_to_byte_array env junk (- 255) = Inr (Some [0xFF, 0x01])
       \<and> mpz_to_byte_array env junk 256 = Inr (Some [0x01, 0x00])
       \<and> mpz_to_byte_array env junk (- 256) = Inr (Some [0xFF, 0x00])
       \<and> mpz_to_byte_array env junk 0 = Inr (Some [0x00])"
proof -
  have a1: "new_array_ok env (2 - 1)" using assms(1) by simp
  have e1: "mpz_to_byte_array env junk 127 = Inr (Some [0x7F])"
  proof -
    have n: "enc_nbytes 127 = 2" by code_simp
    have s: "strip_lead (0 # be_bytes (nat \<bar>127\<bar>)) = [0x7F]" by code_simp
    show ?thesis using enc_eval_pos [of 127 env junk] assms unfolding n s
      by (simp add: INT32_MAX_def numeral_2_eq_2)
  qed
  have e2: "mpz_to_byte_array env junk (- 127) = Inr (Some [0x81])"
  proof -
    have n: "enc_nbytes (- 127) = 2" by code_simp
    have g: "negate_bytes (0 # be_bytes (nat \<bar>- 127\<bar>)) 2 = Inr [0xFF, 0x81]" by code_simp
    have s: "strip_lead [0xFF, 0x81] = [0x81]" by code_simp
    show ?thesis using enc_eval_neg [of "- 127" env "[0xFF, 0x81]" junk] assms g unfolding n s
      by (simp add: INT32_MAX_def numeral_2_eq_2)
  qed
  have e3: "mpz_to_byte_array env junk 128 = Inr (Some [0x00, 0x80])"
  proof -
    have n: "enc_nbytes 128 = 2" by code_simp
    have s: "strip_lead (0 # be_bytes (nat \<bar>128\<bar>)) = [0x00, 0x80]" by code_simp
    show ?thesis using enc_eval_pos [of 128 env junk] assms unfolding n s
      by (simp add: INT32_MAX_def numeral_2_eq_2)
  qed
  have e4: "mpz_to_byte_array env junk (- 128) = Inr (Some [0x80])"
  proof -
    have n: "enc_nbytes (- 128) = 2" by code_simp
    have g: "negate_bytes (0 # be_bytes (nat \<bar>- 128\<bar>)) 2 = Inr [0xFF, 0x80]" by code_simp
    have s: "strip_lead [0xFF, 0x80] = [0x80]" by code_simp
    show ?thesis using enc_eval_neg [of "- 128" env "[0xFF, 0x80]" junk] assms g unfolding n s
      by (simp add: INT32_MAX_def numeral_2_eq_2)
  qed
  have e5: "mpz_to_byte_array env junk 255 = Inr (Some [0x00, 0xFF])"
  proof -
    have n: "enc_nbytes 255 = 2" by code_simp
    have s: "strip_lead (0 # be_bytes (nat \<bar>255\<bar>)) = [0x00, 0xFF]" by code_simp
    show ?thesis using enc_eval_pos [of 255 env junk] assms unfolding n s
      by (simp add: INT32_MAX_def numeral_2_eq_2)
  qed
  have e6: "mpz_to_byte_array env junk (- 255) = Inr (Some [0xFF, 0x01])"
  proof -
    have n: "enc_nbytes (- 255) = 2" by code_simp
    have g: "negate_bytes (0 # be_bytes (nat \<bar>- 255\<bar>)) 2 = Inr [0xFF, 0x01]" by code_simp
    have s: "strip_lead [0xFF, 0x01] = [0xFF, 0x01]" by code_simp
    show ?thesis using enc_eval_neg [of "- 255" env "[0xFF, 0x01]" junk] assms g unfolding n s
      by (simp add: INT32_MAX_def numeral_2_eq_2)
  qed
  have e7: "mpz_to_byte_array env junk 256 = Inr (Some [0x01, 0x00])"
  proof -
    have n: "enc_nbytes 256 = 3" by code_simp
    have s: "strip_lead (0 # be_bytes (nat \<bar>256\<bar>)) = [0x01, 0x00]" by code_simp
    show ?thesis using enc_eval_pos [of 256 env junk] assms unfolding n s
      by (simp add: INT32_MAX_def numeral_2_eq_2)
  qed
  have e8: "mpz_to_byte_array env junk (- 256) = Inr (Some [0xFF, 0x00])"
  proof -
    have n: "enc_nbytes (- 256) = 3" by code_simp
    have g: "negate_bytes (0 # be_bytes (nat \<bar>- 256\<bar>)) 3 = Inr [0xFF, 0xFF, 0x00]" by code_simp
    have s: "strip_lead [0xFF, 0xFF, 0x00] = [0xFF, 0x00]" by code_simp
    show ?thesis using enc_eval_neg [of "- 256" env "[0xFF, 0xFF, 0x00]" junk] assms g unfolding n s
      by (simp add: INT32_MAX_def numeral_2_eq_2)
  qed
  have e9: "mpz_to_byte_array env junk 0 = Inr (Some [0x00])"
    using enc_zero [of env junk] a1 by (simp add: enc_nbytes_zero)
  show ?thesis using e1 e2 e3 e4 e5 e6 e7 e8 e9 by blast
qed

theorem canonical_examples_witness:
  "new_array_ok \<lparr>acquire = (\<lambda>_. AcqCopy), new_array_ok = (\<lambda>n. n \<le> 2), heap_ok = (\<lambda>_. False)\<rparr> 1
   \<and> new_array_ok \<lparr>acquire = (\<lambda>_. AcqCopy), new_array_ok = (\<lambda>n. n \<le> 2), heap_ok = (\<lambda>_. False)\<rparr> 2
   \<and> mpz_to_byte_array \<lparr>acquire = (\<lambda>_. AcqCopy), new_array_ok = (\<lambda>n. n \<le> 2), heap_ok = (\<lambda>_. False)\<rparr>
         (\<lambda>_. 85) 128 = Inr (Some [0x00, 0x80])
   \<and> mpz_to_byte_array \<lparr>acquire = (\<lambda>_. AcqCopy), new_array_ok = (\<lambda>n. n \<le> 2), heap_ok = (\<lambda>_. False)\<rparr>
         (\<lambda>_. 85) (- 256) = Inr (Some [0xFF, 0x00])"
  using canonical_examples
    [of "\<lparr>acquire = (\<lambda>_. AcqCopy), new_array_ok = (\<lambda>n. n \<le> 2), heap_ok = (\<lambda>_. False)\<rparr>" "\<lambda>_. 85"]
  by simp

section \<open>Padded inputs of the decoder\<close>

text \<open>
  Claim C3.  \<^verbatim>\<open>byte_array_to_mpz\<close> accepts inputs that are not minimal.  Any number of
  leading \<^verbatim>\<open>0x00\<close> bytes before a sequence whose first byte has a clear high bit, and any
  number of leading \<^verbatim>\<open>0xFF\<close> bytes before a sequence whose first byte has a set high bit,
  decode to the integer that the sequence without the padding decodes to; in particular
  \<^verbatim>\<open>[0x00, 0x00, 0x7F]\<close> decodes to 127.
\<close>

theorem padded_input_tolerance:
  "(\<not> bit b 7 \<longrightarrow>
      (\<exists>z. decoded (b # bs) = Inr z \<and> decoded (replicate k 0x00 @ b # bs) = Inr z))
   \<and> (bit b 7 \<longrightarrow>
      (\<exists>z. decoded (b # bs) = Inr z \<and> decoded (replicate k 0xFF @ b # bs) = Inr z))
   \<and> decoded [0x00, 0x00, 0x7F] = Inr 127"
proof (intro conjI impI)
  assume b: "\<not> bit b 7"
  have "decoded (replicate k 0 @ b # bs) = Inr (tc_val (replicate k 0 @ b # bs))"
    by (rule decoded_tc) simp
  then show "\<exists>z. decoded (b # bs) = Inr z \<and> decoded (replicate k 0x00 @ b # bs) = Inr z"
    using decoded_tc [of "b # bs"] tc_val_zero_pad [OF b] by simp
next
  assume b: "bit b 7"
  have "decoded (replicate k 255 @ b # bs) = Inr (tc_val (replicate k 255 @ b # bs))"
    by (rule decoded_tc) simp
  then show "\<exists>z. decoded (b # bs) = Inr z \<and> decoded (replicate k 0xFF @ b # bs) = Inr z"
    using decoded_tc [of "b # bs"] tc_val_sign_pad [OF b] by simp
next
  show "decoded [0x00, 0x00, 0x7F] = Inr 127" by code_simp
qed

theorem padded_input_tolerance_witness:
  "\<not> bit (0x7F :: jbyte) 7 \<and> decoded [0x7F] = Inr 127 \<and> decoded (replicate 2 0x00 @ [0x7F]) = Inr 127
   \<and> bit (0x80 :: jbyte) 7 \<and> decoded [0x80, 0x01] = Inr (- 32767)
   \<and> decoded (replicate 3 0xFF @ [0x80, 0x01]) = Inr (- 32767)"
proof -
  have p: "\<not> bit (0x7F :: jbyte) 7" by (simp add: bit7_byte)
  have n: "bit (0x80 :: jbyte) 7" by (simp add: bit7_byte)
  have d1: "decoded [0x7F] = Inr 127" by code_simp
  have d2: "decoded [0x80, 0x01] = Inr (- 32767)" by code_simp
  show ?thesis
    using padded_input_tolerance [of "0x7F" "[]" 2] padded_input_tolerance [of "0x80" "[0x01]" 3]
      p n d1 d2 by simp
qed

section \<open>Rational constants\<close>

lemma decoded_total: "b \<noteq> [] \<Longrightarrow> \<exists>z. decoded b = Inr z"
  using decoded_tc [of b] by simp

lemma decoded_nonempty: "decoded b = Inr z \<Longrightarrow> b \<noteq> []"
  by (auto simp add: decoded_def byte_array_to_mpz_def)

lemma tc_val_zero_iff:
  assumes "b \<noteq> []"
  shows "tc_val b = 0 \<longleftrightarrow> be_val b = 0"
proof (cases "bit (hd b) 7")
  case False
  then show ?thesis by (simp add: tc_val_def)
next
  case True
  then have h: "128 \<le> unat (hd b)" by (simp add: bit7_byte)
  have "0 < (128::nat) * 256 ^ (length b - 1)" by simp
  then have pos: "0 < be_val b" using be_val_hd_ge [OF assms h] by linarith
  have "be_val b < 256 ^ length b" by (rule be_val_lt)
  then have "int (be_val b) < 256 ^ length b" by (metis of_nat_less_iff of_nat_numeral of_nat_power)
  then have "tc_val b < 0" using True assms by (simp add: tc_val_def)
  then show ?thesis using pos by simp
qed

lemma byte_array_to_mpz_buffer:
  assumes "b \<noteq> []"
  shows "\<exists>b1. byte_array_to_mpz b (length b) = Inr (tc_val b, b1) \<and> length b1 = length b
            \<and> (tc_val b = 0 \<longrightarrow> b1 = b) \<and> (tc_val b \<noteq> 0 \<longrightarrow> tc_val b1 \<noteq> 0)"
proof (cases "sint (b ! 0) < 0")
  case False
  then have "\<not> bit (hd b) 7" using assms by (simp add: bit7_byte sint_byte_neg hd_conv_nth)
  then show ?thesis using False assms
    by (simp add: byte_array_to_mpz_def tc_val_def mpz_import_def)
next
  case True
  then have h: "128 \<le> unat (hd b)" using assms by (simp add: sint_byte_neg hd_conv_nth)
  obtain b1 where b1: "negate_bytes b (length b) = Inr b1" "length b1 = length b"
      "int (be_val b1) = (256 ^ length b - int (be_val b)) mod 256 ^ length b"
    using negate_bytes_val [OF assms] by blast
  obtain b2 where b2: "byte_array_to_mpz b (length b) = Inr (tc_val b, b2)"
    using byte_array_to_mpz_tc [OF assms] by blast
  have eq: "b2 = b1" using b2 b1(1) True assms by (simp add: byte_array_to_mpz_def)
  have "0 < (128::nat) * 256 ^ (length b - 1)" by simp
  then have pos: "0 < be_val b" using be_val_hd_ge [OF assms h] by linarith
  have lt: "be_val b < 256 ^ length b" by (rule be_val_lt)
  have "(256 ^ length b - int (be_val b)) mod 256 ^ length b = 256 ^ length b - int (be_val b)"
    by (rule mod_pos_pos_trivial) (use pos lt in simp_all)
  then have "int (be_val b1) = 256 ^ length b - int (be_val b)" using b1(3) by simp
  moreover have "int (be_val b) < 256 ^ length b"
    using lt by (metis of_nat_less_iff of_nat_numeral of_nat_power)
  ultimately have "be_val b1 \<noteq> 0" by linarith
  moreover have "b1 \<noteq> []" using b1(2) assms by auto
  ultimately have nz: "tc_val b1 \<noteq> 0" by (simp add: tc_val_zero_iff)
  have "tc_val b \<noteq> 0" using pos assms by (simp add: tc_val_zero_iff)
  then show ?thesis using b2 eq b1(2) nz by simp
qed

lemma mpq_canonicalize_props:
  assumes "D \<noteq> 0"
  shows "0 < snd (mpq_canonicalize (N, D))"
    and "coprime (fst (mpq_canonicalize (N, D))) (snd (mpq_canonicalize (N, D)))"
    and "fst (mpq_canonicalize (N, D)) * D = N * snd (mpq_canonicalize (N, D))"
proof -
  let ?g = "gcd N D"
  have g: "0 < ?g" using assms by simp
  have dn: "?g dvd N" and dd: "?g dvd D" by simp_all
  have cop: "coprime (N div ?g) (D div ?g)" using assms by (simp add: div_gcd_coprime)
  have eq: "(N div ?g) * D = N * (D div ?g)"
  proof -
    have "(N div ?g) * D = (N div ?g) * (?g * (D div ?g))" using dd by simp
    also have "\<dots> = ((N div ?g) * ?g) * (D div ?g)" by (simp only: mult.assoc)
    also have "\<dots> = N * (D div ?g)" using dn by simp
    finally show ?thesis .
  qed
  have sgn_pos: "0 < D \<Longrightarrow> 0 < D div ?g"
    using g dd by (metis assms dvd_div_eq_0_iff less_le pos_imp_zdiv_nonneg_iff)
  have sgn_neg: "D < 0 \<Longrightarrow> D div ?g < 0"
    using g dd by (simp add: div_neg_pos_less0)
  show "0 < snd (mpq_canonicalize (N, D))"
    using assms sgn_pos sgn_neg by (cases "D < 0") (simp_all add: mpq_canonicalize_def Let_def)
  show "coprime (fst (mpq_canonicalize (N, D))) (snd (mpq_canonicalize (N, D)))"
    using cop by (simp add: mpq_canonicalize_def Let_def)
  show "fst (mpq_canonicalize (N, D)) * D = N * snd (mpq_canonicalize (N, D))"
    using eq by (simp add: mpq_canonicalize_def Let_def)
qed

lemma mpq_canonicalize_4_2: "mpq_canonicalize (4, 2) = (2, 1)"
  by (simp add: mpq_canonicalize_def Let_def)

lemma mpq_canonicalize_2_1: "mpq_canonicalize (2, 1) = (2, 1)"
  by (simp add: mpq_canonicalize_def Let_def)


lemma rational_acquired:
  assumes "acquire env ''num'' \<noteq> AcqFail" "acquire env ''den'' \<noteq> AcqFail"
    and "byte_array_to_mpz (h num) (length (h num)) = Inr (N, bn1)"
    and "h1 = (if acquire env ''num'' = AcqDirect then h(num := bn1) else h)"
    and "byte_array_to_mpz (if acquire env ''den'' = AcqDirect then h1 den else h den)
           (length (h den)) = Inr (D, bd1)"
  shows "bytesToRationalConstant env f h num den =
     Inr \<lparr>result = (if D \<noteq> 0
                    then (case f (mpq_canonicalize (N, D)) of Some t \<Rightarrow> t | None \<Rightarrow> - 1)
                    else - 1),
          trace = [Acquired ''num'', Acquired ''den'']
                  @ (if D \<noteq> 0
                     then [Canonicalized,
                           Called_yices_mpq (fst (mpq_canonicalize (N, D))) (snd (mpq_canonicalize (N, D)))]
                          @ (case f (mpq_canonicalize (N, D)) of
                               Some t \<Rightarrow> [] | None \<Rightarrow> [Raised_OutOfMemory])
                     else [])
                  @ [Released ''num'' JNI_ABORT, Released ''den'' JNI_ABORT],
          arrays = (if acquire env ''den'' = AcqDirect then h1(den := bd1) else h1)\<rparr>"
proof (cases "acquire env ''num''")
  case AcqFail
  then show ?thesis using assms(1) by simp
next
  case nc: AcqCopy
  show ?thesis
  proof (cases "acquire env ''den''")
    case AcqFail
    then show ?thesis using assms(2) by simp
  next
    case AcqCopy
    then show ?thesis using nc assms(3,4,5)
      by (simp add: bytesToRationalConstant_def Let_def acq_event_def release_bytes_if_acquired_def
          GetByteArrayElements_def elems_content_def elems_write_def ReleaseByteArrayElements_def
          guarded_def mpz_sgn_def sgn_eq_0_iff split: prod.splits option.splits)
  next
    case AcqDirect
    then show ?thesis using nc assms(3,4,5)
      by (simp add: bytesToRationalConstant_def Let_def acq_event_def release_bytes_if_acquired_def
          GetByteArrayElements_def elems_content_def elems_write_def ReleaseByteArrayElements_def
          guarded_def mpz_sgn_def sgn_eq_0_iff split: prod.splits option.splits)
  qed
next
  case nd: AcqDirect
  show ?thesis
  proof (cases "acquire env ''den''")
    case AcqFail
    then show ?thesis using assms(2) by simp
  next
    case AcqCopy
    then show ?thesis using nd assms(3,4,5)
      by (simp add: bytesToRationalConstant_def Let_def acq_event_def release_bytes_if_acquired_def
          GetByteArrayElements_def elems_content_def elems_write_def ReleaseByteArrayElements_def
          guarded_def mpz_sgn_def sgn_eq_0_iff split: prod.splits option.splits)
  next
    case AcqDirect
    then show ?thesis using nd assms(3,4,5)
      by (simp add: bytesToRationalConstant_def Let_def acq_event_def release_bytes_if_acquired_def
          GetByteArrayElements_def elems_content_def elems_write_def ReleaseByteArrayElements_def
          guarded_def mpz_sgn_def sgn_eq_0_iff split: prod.splits option.splits)
  qed
qed

lemma rational_not_acquired:
  assumes "acquire env ''num'' = AcqFail \<or> acquire env ''den'' = AcqFail"
  shows "\<exists>out. bytesToRationalConstant env f h num den = Inr out \<and> result out = - 1
           \<and> Canonicalized \<notin> set (trace out) \<and> (\<forall>n d. Called_yices_mpq n d \<notin> set (trace out))"
  using assms
  by (cases "acquire env ''num''"; cases "acquire env ''den''")
     (auto simp add: bytesToRationalConstant_def Let_def acq_event_def release_bytes_if_acquired_def
        GetByteArrayElements_def split: prod.splits option.splits)

lemma rational_fault:
  assumes "acquire env ''num'' \<noteq> AcqFail" "acquire env ''den'' \<noteq> AcqFail"
    and "h num = [] \<or> h den = []"
  shows "bytesToRationalConstant env f h num den = Inl Out_of_bounds"
proof (cases "h num = []")
  case True
  then show ?thesis using assms(1,2)
    by (cases "acquire env ''num''"; cases "acquire env ''den''")
       (simp_all add: bytesToRationalConstant_def Let_def byte_array_to_mpz_def
          GetByteArrayElements_def elems_content_def)
next
  case False
  then have d: "h den = []" "num \<noteq> den" using assms(3) by auto
  obtain bn1 where "byte_array_to_mpz (h num) (length (h num)) = Inr (tc_val (h num), bn1)"
    using byte_array_to_mpz_tc [OF False] by blast
  then show ?thesis using assms(1,2) d
    by (cases "acquire env ''num''"; cases "acquire env ''den''")
       (simp_all add: bytesToRationalConstant_def Let_def byte_array_to_mpz_def
          GetByteArrayElements_def elems_content_def elems_write_def)
qed

text \<open>
  What the entry point does whenever both arrays are handed out and hold at least one byte.
  \<open>N\<close> and \<open>D\<close> are the integers handed to \<^verbatim>\<open>mpq_canonicalize\<close>.
\<close>

lemma rational_total:
  assumes "acquire env ''num'' \<noteq> AcqFail" "acquire env ''den'' \<noteq> AcqFail"
    and "h num \<noteq> []" "h den \<noteq> []"
  shows "\<exists>D h'. bytesToRationalConstant env f h num den =
     Inr \<lparr>result = (if D \<noteq> 0
                    then (case f (mpq_canonicalize (tc_val (h num), D)) of Some t \<Rightarrow> t | None \<Rightarrow> - 1)
                    else - 1),
          trace = [Acquired ''num'', Acquired ''den'']
                  @ (if D \<noteq> 0
                     then [Canonicalized,
                           Called_yices_mpq (fst (mpq_canonicalize (tc_val (h num), D)))
                                            (snd (mpq_canonicalize (tc_val (h num), D)))]
                          @ (case f (mpq_canonicalize (tc_val (h num), D)) of
                               Some t \<Rightarrow> [] | None \<Rightarrow> [Raised_OutOfMemory])
                     else [])
                  @ [Released ''num'' JNI_ABORT, Released ''den'' JNI_ABORT],
          arrays = h'\<rparr>
     \<and> (D = 0 \<longleftrightarrow> tc_val (h den) = 0)
     \<and> (num \<noteq> den \<or> acquire env ''num'' \<noteq> AcqDirect \<or> acquire env ''den'' \<noteq> AcqDirect
          \<longrightarrow> D = tc_val (h den))"
proof -
  obtain bn1 where bn: "byte_array_to_mpz (h num) (length (h num)) = Inr (tc_val (h num), bn1)"
      "length bn1 = length (h num)" "tc_val (h num) = 0 \<longrightarrow> bn1 = h num"
      "tc_val (h num) \<noteq> 0 \<longrightarrow> tc_val bn1 \<noteq> 0"
    using byte_array_to_mpz_buffer [OF assms(3)] by blast
  define h1 where "h1 = (if acquire env ''num'' = AcqDirect then h(num := bn1) else h)"
  define seen where "seen = (if acquire env ''den'' = AcqDirect then h1 den else h den)"
  have len: "length seen = length (h den)" using bn(2) by (simp add: seen_def h1_def)
  then have ne: "seen \<noteq> []" using assms(4) by auto
  obtain bd1 where bd: "byte_array_to_mpz seen (length (h den)) = Inr (tc_val seen, bd1)"
    using byte_array_to_mpz_tc [OF ne] len by auto
  have z: "tc_val seen = 0 \<longleftrightarrow> tc_val (h den) = 0"
    using bn(3,4) by (auto simp add: seen_def h1_def split: if_splits)
  have s: "num \<noteq> den \<or> acquire env ''num'' \<noteq> AcqDirect \<or> acquire env ''den'' \<noteq> AcqDirect
          \<longrightarrow> seen = h den"
    by (auto simp add: seen_def h1_def)
  show ?thesis
    using rational_acquired [OF assms(1,2) bn(1) h1_def bd [unfolded seen_def], of f] z s
    unfolding seen_def [symmetric] by (intro exI [of _ "tc_val seen"]) auto
qed

lemma mpq_calls_canonical:
  assumes "bytesToRationalConstant env f h num den = Inr out"
    and "Called_yices_mpq n d \<in> set (trace out)"
  shows "0 < d \<and> coprime n d \<and>
         (num \<noteq> den \<or> acquire env ''num'' \<noteq> AcqDirect \<or> acquire env ''den'' \<noteq> AcqDirect \<longrightarrow>
            (\<exists>N D. decoded (h num) = Inr N \<and> decoded (h den) = Inr D \<and> D \<noteq> 0 \<and> n * D = N * d))"
proof (cases "acquire env ''num'' = AcqFail \<or> acquire env ''den'' = AcqFail")
  case True
  then show ?thesis using rational_not_acquired [OF True, of f h num den] assms by auto
next
  case False
  then have a: "acquire env ''num'' \<noteq> AcqFail" "acquire env ''den'' \<noteq> AcqFail" by auto
  have ne: "h num \<noteq> []" "h den \<noteq> []"
    using rational_fault [OF a, of h num den f] assms(1) by auto
  let ?N = "tc_val (h num)"
  obtain D h' where o: "bytesToRationalConstant env f h num den =
     Inr \<lparr>result = (if D \<noteq> 0
                    then (case f (mpq_canonicalize (?N, D)) of Some t \<Rightarrow> t | None \<Rightarrow> - 1)
                    else - 1),
          trace = [Acquired ''num'', Acquired ''den'']
                  @ (if D \<noteq> 0
                     then [Canonicalized,
                           Called_yices_mpq (fst (mpq_canonicalize (?N, D)))
                                            (snd (mpq_canonicalize (?N, D)))]
                          @ (case f (mpq_canonicalize (?N, D)) of
                               Some t \<Rightarrow> [] | None \<Rightarrow> [Raised_OutOfMemory])
                     else [])
                  @ [Released ''num'' JNI_ABORT, Released ''den'' JNI_ABORT],
          arrays = h'\<rparr>"
     and s: "num \<noteq> den \<or> acquire env ''num'' \<noteq> AcqDirect \<or> acquire env ''den'' \<noteq> AcqDirect
          \<longrightarrow> D = tc_val (h den)"
    using rational_total [OF a ne, of f] by blast
  have D0: "D \<noteq> 0" using assms o by (auto split: if_splits)
  have "n = fst (mpq_canonicalize (?N, D)) \<and> d = snd (mpq_canonicalize (?N, D))"
    using assms o D0 by (auto split: option.splits)
  then show ?thesis using mpq_canonicalize_props [OF D0, of ?N] s D0 decoded_tc [OF ne(1)]
      decoded_tc [OF ne(2)] by auto
qed

text \<open>
  Claim C4.  For every numerator array of at least one byte and every denominator array
  that decodes to zero, \<^verbatim>\<open>bytesToRationalConstant\<close> returns the sentinel \<open>-1\<close>, and its trace
  holds neither \<^verbatim>\<open>mpq_canonicalize\<close> nor a call of \<^verbatim>\<open>yices_mpq\<close>, whatever the virtual
  machine does with the two arrays, and also when they are one array.  Moreover no call of
  \<^verbatim>\<open>yices_mpq\<close>, on any input, passes a rational whose denominator is zero.
\<close>

theorem zero_denominator_rejected:
  assumes "h num \<noteq> []" "decoded (h den) = Inr 0"
  shows "(\<exists>out. bytesToRationalConstant env yices_mpq h num den = Inr out \<and> result out = - 1
            \<and> Canonicalized \<notin> set (trace out) \<and> (\<forall>n d. Called_yices_mpq n d \<notin> set (trace out)))
         \<and> (\<forall>h' num' den' out' n d.
               bytesToRationalConstant env yices_mpq h' num' den' = Inr out'
               \<and> Called_yices_mpq n d \<in> set (trace out') \<longrightarrow> d \<noteq> 0)"
proof
  show "\<exists>out. bytesToRationalConstant env yices_mpq h num den = Inr out \<and> result out = - 1
            \<and> Canonicalized \<notin> set (trace out) \<and> (\<forall>n d. Called_yices_mpq n d \<notin> set (trace out))"
  proof (cases "acquire env ''num'' = AcqFail \<or> acquire env ''den'' = AcqFail")
    case True
    then show ?thesis by (rule rational_not_acquired)
  next
    case False
    then have a: "acquire env ''num'' \<noteq> AcqFail" "acquire env ''den'' \<noteq> AcqFail" by auto
    have ne: "h den \<noteq> []" using assms(2) by (rule decoded_nonempty)
    have z: "tc_val (h den) = 0" using assms(2) decoded_tc [OF ne] by simp
    show ?thesis using rational_total [OF a assms(1) ne, of yices_mpq] z by auto
  qed
  show "\<forall>h' num' den' out' n d.
               bytesToRationalConstant env yices_mpq h' num' den' = Inr out'
               \<and> Called_yices_mpq n d \<in> set (trace out') \<longrightarrow> d \<noteq> 0"
    using mpq_calls_canonical [of env yices_mpq] by fastforce
qed

theorem zero_denominator_rejected_witness:
  "[0x01 :: jbyte] \<noteq> [] \<and> decoded [0x00, 0x00] = Inr 0 \<and>
   (\<exists>out. bytesToRationalConstant
             \<lparr>acquire = (\<lambda>_. AcqCopy), new_array_ok = (\<lambda>_. True), heap_ok = (\<lambda>_. True)\<rparr>
             (\<lambda>q. Some 7) ((\<lambda>_. [])(0 := [0x01], 1 := [0x00, 0x00])) 0 1 = Inr out
        \<and> result out = - 1 \<and> Canonicalized \<notin> set (trace out)
        \<and> (\<forall>n d. Called_yices_mpq n d \<notin> set (trace out)))"
proof -
  let ?h = "(\<lambda>_. [])(0 := [0x01], 1 := [0x00, 0x00 :: jbyte]) :: byte_store"
  have d0: "decoded [0x00, 0x00] = Inr 0" by code_simp
  have d: "decoded (?h 1) = Inr 0" using d0 by simp
  have n: "?h 0 \<noteq> []" by simp
  have "\<exists>out. bytesToRationalConstant
             \<lparr>acquire = (\<lambda>_. AcqCopy), new_array_ok = (\<lambda>_. True), heap_ok = (\<lambda>_. True)\<rparr>
             (\<lambda>q. Some 7) ?h 0 1 = Inr out
        \<and> result out = - 1 \<and> Canonicalized \<notin> set (trace out)
        \<and> (\<forall>n d. Called_yices_mpq n d \<notin> set (trace out))"
    using zero_denominator_rejected [OF n d, THEN conjunct1] .
  then show ?thesis using d0 by blast
qed

text \<open>
  Claim C8.  When both arrays are handed out, \<^verbatim>\<open>bytesToRationalConstant\<close> on the bytes of 4
  and 2 and on the bytes of 2 and 1 makes the same calls, passes the same rational \<open>2/1\<close>
  to \<^verbatim>\<open>yices_mpq\<close>, and returns what \<^verbatim>\<open>yices_mpq\<close> returns for it (\<open>-1\<close> when it runs out of
  memory).  For every input with a denominator that is not zero, \<^verbatim>\<open>mpq_canonicalize\<close> and
  one call of \<^verbatim>\<open>yices_mpq\<close> are made, and the result of that call is returned.  The fraction
  \<open>n/d\<close> of every call of \<^verbatim>\<open>yices_mpq\<close> is in lowest terms and has a strictly positive
  denominator; it equals the decoded numerator over the decoded denominator unless one
  array is passed for both and the virtual machine hands out its storage twice.
\<close>

theorem rational_canonicalized:
  "(acquire env ''num'' \<noteq> AcqFail \<and> acquire env ''den'' \<noteq> AcqFail
      \<and> h1 n1 = [0x04] \<and> h1 d1 = [0x02] \<and> h2 n2 = [0x02] \<and> h2 d2 = [0x01] \<longrightarrow>
      (\<exists>o1 o2. bytesToRationalConstant env yices_mpq h1 n1 d1 = Inr o1
             \<and> bytesToRationalConstant env yices_mpq h2 n2 d2 = Inr o2
             \<and> trace o1 = [Acquired ''num'', Acquired ''den'', Canonicalized, Called_yices_mpq 2 1]
                          @ (case yices_mpq (2, 1) of Some t \<Rightarrow> [] | None \<Rightarrow> [Raised_OutOfMemory])
                          @ [Released ''num'' JNI_ABORT, Released ''den'' JNI_ABORT]
             \<and> trace o2 = trace o1
             \<and> result o1 = (case yices_mpq (2, 1) of Some t \<Rightarrow> t | None \<Rightarrow> - 1)
             \<and> result o2 = result o1))
   \<and> (acquire env ''num'' \<noteq> AcqFail \<and> acquire env ''den'' \<noteq> AcqFail
        \<and> decoded (h num) = Inr N \<and> decoded (h den) = Inr D \<and> D \<noteq> 0 \<longrightarrow>
      (\<exists>out n d. bytesToRationalConstant env yices_mpq h num den = Inr out
             \<and> trace out = [Acquired ''num'', Acquired ''den'', Canonicalized, Called_yices_mpq n d]
                          @ (case yices_mpq (n, d) of Some t \<Rightarrow> [] | None \<Rightarrow> [Raised_OutOfMemory])
                          @ [Released ''num'' JNI_ABORT, Released ''den'' JNI_ABORT]
             \<and> result out = (case yices_mpq (n, d) of Some t \<Rightarrow> t | None \<Rightarrow> - 1)
             \<and> 0 < d \<and> coprime n d
             \<and> (num \<noteq> den \<or> acquire env ''num'' \<noteq> AcqDirect \<or> acquire env ''den'' \<noteq> AcqDirect
                  \<longrightarrow> n * D = N * d)))
   \<and> (bytesToRationalConstant env yices_mpq h num den = Inr out
        \<and> Called_yices_mpq n d \<in> set (trace out) \<longrightarrow>
      0 < d \<and> coprime n d \<and>
      (num \<noteq> den \<or> acquire env ''num'' \<noteq> AcqDirect \<or> acquire env ''den'' \<noteq> AcqDirect \<longrightarrow>
         (\<exists>N D. decoded (h num) = Inr N \<and> decoded (h den) = Inr D \<and> D \<noteq> 0 \<and> n * D = N * d)))"
proof (intro conjI)
  show "acquire env ''num'' \<noteq> AcqFail \<and> acquire env ''den'' \<noteq> AcqFail
      \<and> h1 n1 = [0x04] \<and> h1 d1 = [0x02] \<and> h2 n2 = [0x02] \<and> h2 d2 = [0x01] \<longrightarrow>
      (\<exists>o1 o2. bytesToRationalConstant env yices_mpq h1 n1 d1 = Inr o1
             \<and> bytesToRationalConstant env yices_mpq h2 n2 d2 = Inr o2
             \<and> trace o1 = [Acquired ''num'', Acquired ''den'', Canonicalized, Called_yices_mpq 2 1]
                          @ (case yices_mpq (2, 1) of Some t \<Rightarrow> [] | None \<Rightarrow> [Raised_OutOfMemory])
                          @ [Released ''num'' JNI_ABORT, Released ''den'' JNI_ABORT]
             \<and> trace o2 = trace o1
             \<and> result o1 = (case yices_mpq (2, 1) of Some t \<Rightarrow> t | None \<Rightarrow> - 1)
             \<and> result o2 = result o1)"
  proof
    assume a: "acquire env ''num'' \<noteq> AcqFail \<and> acquire env ''den'' \<noteq> AcqFail
      \<and> h1 n1 = [0x04] \<and> h1 d1 = [0x02] \<and> h2 n2 = [0x02] \<and> h2 d2 = [0x01]"
    then have aq: "acquire env ''num'' \<noteq> AcqFail" "acquire env ''den'' \<noteq> AcqFail" by simp_all
    have t4: "tc_val [0x04] = 4" and t2: "tc_val [0x02] = 2" and t1: "tc_val [0x01] = 1"
      by (simp_all add: tc_val_def)
    have s1: "n1 \<noteq> d1" using a by auto
    have s2: "n2 \<noteq> d2" using a by auto
    have ne1: "h1 n1 \<noteq> []" "h1 d1 \<noteq> []" using a by simp_all
    have ne2: "h2 n2 \<noteq> []" "h2 d2 \<noteq> []" using a by simp_all
    show "\<exists>o1 o2. bytesToRationalConstant env yices_mpq h1 n1 d1 = Inr o1
             \<and> bytesToRationalConstant env yices_mpq h2 n2 d2 = Inr o2
             \<and> trace o1 = [Acquired ''num'', Acquired ''den'', Canonicalized, Called_yices_mpq 2 1]
                          @ (case yices_mpq (2, 1) of Some t \<Rightarrow> [] | None \<Rightarrow> [Raised_OutOfMemory])
                          @ [Released ''num'' JNI_ABORT, Released ''den'' JNI_ABORT]
             \<and> trace o2 = trace o1
             \<and> result o1 = (case yices_mpq (2, 1) of Some t \<Rightarrow> t | None \<Rightarrow> - 1)
             \<and> result o2 = result o1"
      using rational_total [OF aq ne1, of yices_mpq] rational_total [OF aq ne2, of yices_mpq]
        s1 s2 a t4 t2 t1
      by (auto simp add: mpq_canonicalize_4_2 mpq_canonicalize_2_1)
  qed
next
  show "acquire env ''num'' \<noteq> AcqFail \<and> acquire env ''den'' \<noteq> AcqFail
        \<and> decoded (h num) = Inr N \<and> decoded (h den) = Inr D \<and> D \<noteq> 0 \<longrightarrow>
      (\<exists>out n d. bytesToRationalConstant env yices_mpq h num den = Inr out
             \<and> trace out = [Acquired ''num'', Acquired ''den'', Canonicalized, Called_yices_mpq n d]
                          @ (case yices_mpq (n, d) of Some t \<Rightarrow> [] | None \<Rightarrow> [Raised_OutOfMemory])
                          @ [Released ''num'' JNI_ABORT, Released ''den'' JNI_ABORT]
             \<and> result out = (case yices_mpq (n, d) of Some t \<Rightarrow> t | None \<Rightarrow> - 1)
             \<and> 0 < d \<and> coprime n d
             \<and> (num \<noteq> den \<or> acquire env ''num'' \<noteq> AcqDirect \<or> acquire env ''den'' \<noteq> AcqDirect
                  \<longrightarrow> n * D = N * d))"
  proof
    assume a: "acquire env ''num'' \<noteq> AcqFail \<and> acquire env ''den'' \<noteq> AcqFail
        \<and> decoded (h num) = Inr N \<and> decoded (h den) = Inr D \<and> D \<noteq> 0"
    then have aq: "acquire env ''num'' \<noteq> AcqFail" "acquire env ''den'' \<noteq> AcqFail" by simp_all
    have ne: "h num \<noteq> []" "h den \<noteq> []" using a decoded_nonempty by blast+
    have N: "N = tc_val (h num)" and D: "D = tc_val (h den)"
      using a decoded_tc [OF ne(1)] decoded_tc [OF ne(2)] by simp_all
    obtain D' h' where o: "bytesToRationalConstant env yices_mpq h num den =
       Inr \<lparr>result = (if D' \<noteq> 0
                      then (case yices_mpq (mpq_canonicalize (N, D')) of Some t \<Rightarrow> t | None \<Rightarrow> - 1)
                      else - 1),
            trace = [Acquired ''num'', Acquired ''den'']
                    @ (if D' \<noteq> 0
                       then [Canonicalized,
                             Called_yices_mpq (fst (mpq_canonicalize (N, D')))
                                              (snd (mpq_canonicalize (N, D')))]
                            @ (case yices_mpq (mpq_canonicalize (N, D')) of
                                 Some t \<Rightarrow> [] | None \<Rightarrow> [Raised_OutOfMemory])
                       else [])
                    @ [Released ''num'' JNI_ABORT, Released ''den'' JNI_ABORT],
            arrays = h'\<rparr>"
      and z: "D' = 0 \<longleftrightarrow> tc_val (h den) = 0"
      and s: "num \<noteq> den \<or> acquire env ''num'' \<noteq> AcqDirect \<or> acquire env ''den'' \<noteq> AcqDirect
          \<longrightarrow> D' = tc_val (h den)"
      using rational_total [OF aq ne, of yices_mpq] unfolding N by blast
    have D0: "D' \<noteq> 0" using z a D by simp
    let ?n = "fst (mpq_canonicalize (N, D'))" and ?d = "snd (mpq_canonicalize (N, D'))"
    have p: "0 < ?d" "coprime ?n ?d" "?n * D' = N * ?d"
      using mpq_canonicalize_props [OF D0, of N] by simp_all
    have q: "num \<noteq> den \<or> acquire env ''num'' \<noteq> AcqDirect \<or> acquire env ''den'' \<noteq> AcqDirect
          \<longrightarrow> ?n * D = N * ?d"
      using s p(3) D by auto
    have r: "\<exists>out. bytesToRationalConstant env yices_mpq h num den = Inr out
             \<and> trace out = [Acquired ''num'', Acquired ''den'', Canonicalized, Called_yices_mpq ?n ?d]
                          @ (case yices_mpq (?n, ?d) of Some t \<Rightarrow> [] | None \<Rightarrow> [Raised_OutOfMemory])
                          @ [Released ''num'' JNI_ABORT, Released ''den'' JNI_ABORT]
             \<and> result out = (case yices_mpq (?n, ?d) of Some t \<Rightarrow> t | None \<Rightarrow> - 1)"
      unfolding o using D0 by simp
    show "\<exists>out n d. bytesToRationalConstant env yices_mpq h num den = Inr out
             \<and> trace out = [Acquired ''num'', Acquired ''den'', Canonicalized, Called_yices_mpq n d]
                          @ (case yices_mpq (n, d) of Some t \<Rightarrow> [] | None \<Rightarrow> [Raised_OutOfMemory])
                          @ [Released ''num'' JNI_ABORT, Released ''den'' JNI_ABORT]
             \<and> result out = (case yices_mpq (n, d) of Some t \<Rightarrow> t | None \<Rightarrow> - 1)
             \<and> 0 < d \<and> coprime n d
             \<and> (num \<noteq> den \<or> acquire env ''num'' \<noteq> AcqDirect \<or> acquire env ''den'' \<noteq> AcqDirect
                  \<longrightarrow> n * D = N * d)"
      using r p(1,2) q by blast
  qed
next
  show "bytesToRationalConstant env yices_mpq h num den = Inr out
        \<and> Called_yices_mpq n d \<in> set (trace out) \<longrightarrow>
      0 < d \<and> coprime n d \<and>
      (num \<noteq> den \<or> acquire env ''num'' \<noteq> AcqDirect \<or> acquire env ''den'' \<noteq> AcqDirect \<longrightarrow>
         (\<exists>N D. decoded (h num) = Inr N \<and> decoded (h den) = Inr D \<and> D \<noteq> 0 \<and> n * D = N * d))"
    using mpq_calls_canonical [of env yices_mpq h num den out n d] by blast
qed

theorem rational_canonicalized_witness:
  "(\<exists>o1 o2. bytesToRationalConstant
             \<lparr>acquire = (\<lambda>_. AcqDirect), new_array_ok = (\<lambda>_. True), heap_ok = (\<lambda>_. True)\<rparr>
             (\<lambda>q. if q = (2, 1) then Some 7 else Some 8)
             ((\<lambda>_. [])(0 := [0x04], 1 := [0x02])) 0 1 = Inr o1
         \<and> bytesToRationalConstant
             \<lparr>acquire = (\<lambda>_. AcqDirect), new_array_ok = (\<lambda>_. True), heap_ok = (\<lambda>_. True)\<rparr>
             (\<lambda>q. if q = (2, 1) then Some 7 else Some 8)
             ((\<lambda>_. [])(0 := [0x02], 1 := [0x01])) 0 1 = Inr o2
         \<and> trace o1 = [Acquired ''num'', Acquired ''den'', Canonicalized, Called_yices_mpq 2 1,
                       Released ''num'' JNI_ABORT, Released ''den'' JNI_ABORT]
         \<and> trace o2 = trace o1 \<and> result o1 = 7 \<and> result o2 = 7)
   \<and> decoded [0xFC] = Inr (- 4) \<and> decoded [0xFE] = Inr (- 2)
   \<and> (\<exists>out n d. bytesToRationalConstant
             \<lparr>acquire = (\<lambda>_. AcqDirect), new_array_ok = (\<lambda>_. True), heap_ok = (\<lambda>_. True)\<rparr>
             (\<lambda>q. if q = (2, 1) then Some 7 else Some 8)
             ((\<lambda>_. [])(0 := [0xFC], 1 := [0xFE])) 0 1 = Inr out
         \<and> Called_yices_mpq n d \<in> set (trace out)
         \<and> result out = (case (if (n, d) = (2, 1) then Some 7 else Some 8) of
                            Some t \<Rightarrow> t | None \<Rightarrow> - 1)
         \<and> 0 < d \<and> coprime n d \<and> n * (- 2) = (- 4) * d)"
proof -
  let ?env = "\<lparr>acquire = (\<lambda>_. AcqDirect), new_array_ok = (\<lambda>_. True), heap_ok = (\<lambda>_. True)\<rparr>"
  let ?f = "\<lambda>q :: int \<times> int. if q = (2, 1) then Some (7 :: jint) else Some 8"
  let ?h1 = "(\<lambda>_. [])(0 := [0x04], 1 := [0x02 :: jbyte]) :: byte_store"
  let ?h2 = "(\<lambda>_. [])(0 := [0x02], 1 := [0x01 :: jbyte]) :: byte_store"
  let ?h = "(\<lambda>_. [])(0 := [0xFC], 1 := [0xFE :: jbyte]) :: byte_store"
  have dn: "decoded [0xFC] = Inr (- 4)" and dd: "decoded [0xFE] = Inr (- 2)" by code_simp+
  have hn: "decoded (?h 0) = Inr (- 4)" and hd: "decoded (?h 1) = Inr (- 2)"
    using dn dd by simp_all
  have a: "acquire ?env ''num'' \<noteq> AcqFail \<and> acquire ?env ''den'' \<noteq> AcqFail" by simp
  have sep: "(0 :: jarray) \<noteq> 1" by simp
  have b: "?h1 0 = [0x04] \<and> ?h1 1 = [0x02] \<and> ?h2 0 = [0x02] \<and> ?h2 1 = [0x01]" by simp
  note T = rational_canonicalized [of ?env ?h1 0 1 ?h2 0 1 ?f ?h 0 "- 4" 1 "- 2"]
  have "\<exists>o1 o2. bytesToRationalConstant ?env ?f ?h1 0 1 = Inr o1
         \<and> bytesToRationalConstant ?env ?f ?h2 0 1 = Inr o2
         \<and> trace o1 = [Acquired ''num'', Acquired ''den'', Canonicalized, Called_yices_mpq 2 1]
                          @ (case ?f (2, 1) of Some t \<Rightarrow> [] | None \<Rightarrow> [Raised_OutOfMemory])
                          @ [Released ''num'' JNI_ABORT, Released ''den'' JNI_ABORT]
         \<and> trace o2 = trace o1
         \<and> result o1 = (case ?f (2, 1) of Some t \<Rightarrow> t | None \<Rightarrow> - 1)
         \<and> result o2 = result o1"
    using T [THEN conjunct1] a b by blast
  then obtain o1 o2 where p: "bytesToRationalConstant ?env ?f ?h1 0 1 = Inr o1"
      "bytesToRationalConstant ?env ?f ?h2 0 1 = Inr o2"
      "trace o1 = [Acquired ''num'', Acquired ''den'', Canonicalized, Called_yices_mpq 2 1]
                          @ (case ?f (2, 1) of Some t \<Rightarrow> [] | None \<Rightarrow> [Raised_OutOfMemory])
                          @ [Released ''num'' JNI_ABORT, Released ''den'' JNI_ABORT]"
      "trace o2 = trace o1"
      "result o1 = (case ?f (2, 1) of Some t \<Rightarrow> t | None \<Rightarrow> - 1)"
      "result o2 = result o1"
    by blast
  have t1: "trace o1 = [Acquired ''num'', Acquired ''den'', Canonicalized, Called_yices_mpq 2 1,
                       Released ''num'' JNI_ABORT, Released ''den'' JNI_ABORT]"
    using p(3) by simp
  have r1: "result o1 = 7" using p(5) by simp
  have r2: "result o2 = 7" using p(6) r1 by simp
  have 1: "\<exists>o1 o2. bytesToRationalConstant ?env ?f ?h1 0 1 = Inr o1
         \<and> bytesToRationalConstant ?env ?f ?h2 0 1 = Inr o2
         \<and> trace o1 = [Acquired ''num'', Acquired ''den'', Canonicalized, Called_yices_mpq 2 1,
                       Released ''num'' JNI_ABORT, Released ''den'' JNI_ABORT]
         \<and> trace o2 = trace o1 \<and> result o1 = 7 \<and> result o2 = 7"
    using p(1,2,4) t1 r1 r2 by blast
  have hyp: "acquire ?env ''num'' \<noteq> AcqFail \<and> acquire ?env ''den'' \<noteq> AcqFail
        \<and> decoded (?h 0) = Inr (- 4) \<and> decoded (?h 1) = Inr (- 2) \<and> (- 2 :: int) \<noteq> 0"
    using a hn hd by simp
  obtain out n d where o: "bytesToRationalConstant ?env ?f ?h 0 1 = Inr out"
      "trace out = [Acquired ''num'', Acquired ''den'', Canonicalized, Called_yices_mpq n d]
                          @ (case ?f (n, d) of Some t \<Rightarrow> [] | None \<Rightarrow> [Raised_OutOfMemory])
                          @ [Released ''num'' JNI_ABORT, Released ''den'' JNI_ABORT]"
      "result out = (case ?f (n, d) of Some t \<Rightarrow> t | None \<Rightarrow> - 1)"
    using T [THEN conjunct2, THEN conjunct1, rule_format, OF hyp] by blast
  have c: "Called_yices_mpq n d \<in> set (trace out)" unfolding o(2) by simp
  have "0 < d \<and> coprime n d \<and>
      (\<exists>N D. decoded (?h 0) = Inr N \<and> decoded (?h 1) = Inr D \<and> D \<noteq> 0 \<and> n * D = N * d)"
    using rational_canonicalized [of ?env ?h1 0 1 ?h2 0 1 ?f ?h 0 "- 4" 1 "- 2" out n d,
        THEN conjunct2, THEN conjunct2] o(1) c sep by blast
  then have "0 < d \<and> coprime n d \<and> n * (- 2) = (- 4) * d" using hn hd by auto
  then show ?thesis using 1 o(1,3) c dn dd by blast
qed

text \<open>
  One array passed as numerator and as denominator, on a virtual machine that hands out its
  storage: the denominator is read after the numerator was negated in place.
\<close>

lemma rational_same_array:
  "bytesToRationalConstant
       \<lparr>acquire = (\<lambda>_. AcqDirect), new_array_ok = (\<lambda>_. True), heap_ok = (\<lambda>_. True)\<rparr>
       (\<lambda>q. Some 7) ((\<lambda>_. [])(0 := [0xFE])) 0 0
     = Inr \<lparr>result = 7,
            trace = [Acquired ''num'', Acquired ''den'', Canonicalized, Called_yices_mpq (- 1) 1,
                     Released ''num'' JNI_ABORT, Released ''den'' JNI_ABORT],
            arrays = (\<lambda>_. [])(0 := [0x02])\<rparr>"
proof -
  have d1: "byte_array_to_mpz [0xFE] (length [0xFE :: jbyte]) = Inr (- 2, [0x02])" by code_simp
  have d2: "byte_array_to_mpz [0x02] (length [0xFE :: jbyte]) = Inr (2, [0x02])" by code_simp
  have c: "mpq_canonicalize (- 2, 2) = (- 1, 1)" by (simp add: mpq_canonicalize_def Let_def)
  let ?env = "\<lparr>acquire = (\<lambda>_. AcqDirect), new_array_ok = (\<lambda>_. True), heap_ok = (\<lambda>_. True)\<rparr>"
  let ?h = "(\<lambda>_. [])(0 := [0xFE :: jbyte]) :: byte_store"
  have a: "acquire ?env ''num'' \<noteq> AcqFail" "acquire ?env ''den'' \<noteq> AcqFail" by simp_all
  have n: "byte_array_to_mpz (?h 0) (length (?h 0)) = Inr (- 2, [0x02])" using d1 by simp
  have d: "byte_array_to_mpz
             (if acquire ?env ''den'' = AcqDirect
              then (if acquire ?env ''num'' = AcqDirect then ?h(0 := [0x02]) else ?h) 0 else ?h 0)
             (length (?h 0)) = Inr (2, [0x02])"
    using d2 by simp
  show ?thesis
    unfolding rational_acquired [OF a n refl d] by (simp add: c)
qed

section \<open>Polynomials\<close>

lemma GetArrayElements_cases:
  "GetArrayElements env name arr = None \<and> acquire env name = AcqFail
   \<or> (\<exists>cp. GetArrayElements env name arr = Some (cp, arr) \<and> acquire env name \<noteq> AcqFail)"
  by (cases "acquire env name") (auto simp add: GetArrayElements_def)

lemma all_positive_longs_from_iff:
  "all_positive_longs_from i n a \<longleftrightarrow> (\<forall>j. i \<le> j \<and> j < n \<longrightarrow> 0 \<le> sint (a ! j))"
proof (induction i n a rule: all_positive_longs_from.induct)
  case (1 i n a)
  show ?case
  proof (cases "i < n")
    case False
    then show ?thesis by (subst all_positive_longs_from.simps) simp
  next
    case True
    show ?thesis
    proof (cases "sint (a ! i) < 0")
      case neg: True
      then have "\<not> all_positive_longs_from i n a"
        using True by (subst all_positive_longs_from.simps) simp
      moreover have "\<not> (\<forall>j. i \<le> j \<and> j < n \<longrightarrow> 0 \<le> sint (a ! j))"
        using neg True by (auto intro: exI [of _ i])
      ultimately show ?thesis by simp
    next
      case nonneg: False
      then have "all_positive_longs_from i n a \<longleftrightarrow> all_positive_longs_from (i + 1) n a"
        using True by (subst all_positive_longs_from.simps) simp
      also have "\<dots> \<longleftrightarrow> (\<forall>j. i + 1 \<le> j \<and> j < n \<longrightarrow> 0 \<le> sint (a ! j))"
        using 1 [OF True nonneg] .
      also have "\<dots> \<longleftrightarrow> (\<forall>j. i \<le> j \<and> j < n \<longrightarrow> 0 \<le> sint (a ! j))"
      proof
        assume h: "\<forall>j. i + 1 \<le> j \<and> j < n \<longrightarrow> 0 \<le> sint (a ! j)"
        show "\<forall>j. i \<le> j \<and> j < n \<longrightarrow> 0 \<le> sint (a ! j)"
        proof (intro allI impI)
          fix j assume j: "i \<le> j \<and> j < n"
          show "0 \<le> sint (a ! j)"
          proof (cases "j = i")
            case True
            then show ?thesis using nonneg by simp
          next
            case False
            then show ?thesis using h j by simp
          qed
        qed
      next
        assume "\<forall>j. i \<le> j \<and> j < n \<longrightarrow> 0 \<le> sint (a ! j)"
        then show "\<forall>j. i + 1 \<le> j \<and> j < n \<longrightarrow> 0 \<le> sint (a ! j)" by simp
      qed
      finally show ?thesis .
    qed
  qed
qed

lemma all_positive_longs_iff:
  "all_positive_longs (length a) a \<longleftrightarrow> (\<forall>x \<in> set a. 0 \<le> sint x)"
  unfolding all_positive_longs_def all_positive_longs_from_iff
  by (metis in_set_conv_nth le0)

text \<open>
  Claim C7.  If the coefficient and term arrays of \<^verbatim>\<open>intPoly\<close> differ in length, or the
  three arrays of \<^verbatim>\<open>rationalPoly\<close> do not all have the same length, the operation returns
  \<open>-1\<close> with an empty trace: no array elements are acquired and no Yices function is called.
\<close>

theorem length_mismatch_fails_fast:
  "(length coeff \<noteq> length t \<longrightarrow>
      intPoly env yices_poly_int64 coeff t = \<lparr>result = - 1, trace = [], arrays = ()\<rparr>)
   \<and> (\<not> (length num = length den \<and> length num = length t') \<longrightarrow>
      rationalPoly env yices_poly_rational64 num den t' = \<lparr>result = - 1, trace = [], arrays = ()\<rparr>)"
  by (simp add: intPoly_def rationalPoly_def Let_def)

theorem length_mismatch_fails_fast_witness:
  "length [1, 2 :: jlong] \<noteq> length [3 :: jint]
   \<and> intPoly \<lparr>acquire = (\<lambda>_. AcqCopy), new_array_ok = (\<lambda>_. True), heap_ok = (\<lambda>_. True)\<rparr>
        (\<lambda>c t. Some 7) [1, 2] [3] = \<lparr>result = - 1, trace = [], arrays = ()\<rparr>
   \<and> \<not> (length [1, 2 :: jlong] = length [1, 1 :: jlong] \<and> length [1, 2 :: jlong] = length [3 :: jint])
   \<and> rationalPoly \<lparr>acquire = (\<lambda>_. AcqCopy), new_array_ok = (\<lambda>_. True), heap_ok = (\<lambda>_. True)\<rparr>
        (\<lambda>p q t. Some 7) [1, 2] [1, 1] [3] = \<lparr>result = - 1, trace = [], arrays = ()\<rparr>"
  using length_mismatch_fails_fast
    [of "[1, 2]" "[3]" "\<lparr>acquire = (\<lambda>_. AcqCopy), new_array_ok = (\<lambda>_. True), heap_ok = (\<lambda>_. True)\<rparr>"
        "\<lambda>c t. Some 7" "[1, 2]" "[1, 1]" "[3]" "\<lambda>p q t. Some 7"]
  by simp

lemma rationalPoly_trace_balanced:
  "released (trace (rationalPoly env f num den t)) = rev (acquired (trace (rationalPoly env f num den t)))"
  using GetArrayElements_cases [of env "''t''" t] GetArrayElements_cases [of env "''num''" num]
    GetArrayElements_cases [of env "''den''" den]
  by (auto simp add: rationalPoly_def Let_def acq_event_def release_if_acquired_def guarded_def
      split: prod.splits option.splits)

lemma rationalPoly_native_call:
  assumes "Called_native s \<in> set (trace (rationalPoly env f num den t))"
  shows "\<forall>x \<in> set den. 0 \<le> sint x"
proof -
  have l: "length num = length den" using assms
    by (auto simp add: rationalPoly_def Let_def split: if_splits)
  have "all_positive_longs (length den) den"
    using assms l GetArrayElements_cases [of env "''t''" t] GetArrayElements_cases [of env "''num''" num]
      GetArrayElements_cases [of env "''den''" den]
    by (auto simp add: rationalPoly_def Let_def acq_event_def release_if_acquired_def guarded_def
        split: prod.splits option.splits if_splits)
  then show ?thesis by (simp add: all_positive_longs_iff)
qed

lemma rationalPoly_result:
  assumes "\<forall>s. Called_native s \<notin> set (trace (rationalPoly env f num den t))"
  shows "result (rationalPoly env f num den t) = - 1"
  using assms GetArrayElements_cases [of env "''t''" t] GetArrayElements_cases [of env "''num''" num]
      GetArrayElements_cases [of env "''den''" den]
  by (auto simp add: rationalPoly_def Let_def acq_event_def release_if_acquired_def guarded_def
        split: prod.splits option.splits if_splits)

text \<open>
  Claim C9.  If some element of the denominator array of \<^verbatim>\<open>rationalPoly\<close> is negative, the
  operation returns \<open>-1\<close>, no Yices function is called, and the views that were acquired are
  exactly the views released (in reverse order).  The constructor
  \<^verbatim>\<open>yices_poly_rational64\<close> is called only when every denominator is non-negative.
\<close>

theorem negative_denominator_rejected:
  "((\<exists>x \<in> set den. sint x < 0) \<longrightarrow>
      result (rationalPoly env yices_poly_rational64 num den t) = - 1
      \<and> (\<forall>s. Called_native s \<notin> set (trace (rationalPoly env yices_poly_rational64 num den t)))
      \<and> released (trace (rationalPoly env yices_poly_rational64 num den t))
          = rev (acquired (trace (rationalPoly env yices_poly_rational64 num den t))))
   \<and> (Called_native ''yices_poly_rational64''
          \<in> set (trace (rationalPoly env yices_poly_rational64 num den t)) \<longrightarrow>
      (\<forall>x \<in> set den. 0 \<le> sint x))"
proof (intro conjI impI)
  assume neg: "\<exists>x \<in> set den. sint x < 0"
  have nc: "\<forall>s. Called_native s \<notin> set (trace (rationalPoly env yices_poly_rational64 num den t))"
  proof (intro allI notI)
    fix s assume "Called_native s \<in> set (trace (rationalPoly env yices_poly_rational64 num den t))"
    then have "\<forall>x \<in> set den. 0 \<le> sint x" by (rule rationalPoly_native_call)
    then show False using neg by auto
  qed
  then show "result (rationalPoly env yices_poly_rational64 num den t) = - 1"
    by (rule rationalPoly_result)
  show "\<forall>s. Called_native s \<notin> set (trace (rationalPoly env yices_poly_rational64 num den t))"
    by (rule nc)
  show "released (trace (rationalPoly env yices_poly_rational64 num den t))
          = rev (acquired (trace (rationalPoly env yices_poly_rational64 num den t)))"
    by (rule rationalPoly_trace_balanced)
next
  assume "Called_native ''yices_poly_rational64''
          \<in> set (trace (rationalPoly env yices_poly_rational64 num den t))"
  then show "\<forall>x \<in> set den. 0 \<le> sint x" by (rule rationalPoly_native_call)
qed

theorem negative_denominator_rejected_witness:
  "(\<exists>x \<in> set [3, - 4 :: jlong]. sint x < 0)
   \<and> rationalPoly \<lparr>acquire = (\<lambda>_. AcqDirect), new_array_ok = (\<lambda>_. True), heap_ok = (\<lambda>_. True)\<rparr>
        (\<lambda>p q t. Some 7) [1, 2] [3, - 4] [5, 6]
      = \<lparr>result = - 1,
         trace = [Acquired ''t'', Acquired ''num'', Acquired ''den'', Released ''den'' JNI_ABORT,
                  Released ''num'' JNI_ABORT, Released ''t'' JNI_ABORT],
         arrays = ()\<rparr>
   \<and> Called_native ''yices_poly_rational64''
        \<in> set (trace (rationalPoly
             \<lparr>acquire = (\<lambda>_. AcqDirect), new_array_ok = (\<lambda>_. True), heap_ok = (\<lambda>_. True)\<rparr>
             (\<lambda>p q t. Some 7) [1, 2] [3, 4] [5, 6]))
   \<and> 0 \<le> sint (3 :: jlong) \<and> 0 \<le> sint (4 :: jlong)"
proof -
  let ?env = "\<lparr>acquire = (\<lambda>_. AcqDirect), new_array_ok = (\<lambda>_. True), heap_ok = (\<lambda>_. True)\<rparr>"
  have n: "\<exists>x \<in> set [3, - 4 :: jlong]. sint x < 0" by simp
  have a: "all_positive_longs (Suc (Suc 0)) [3, 4 :: jlong]"
    using all_positive_longs_iff [of "[3, 4 :: jlong]"] by simp
  have b: "\<not> all_positive_longs (Suc (Suc 0)) [3, - 4 :: jlong]"
    using all_positive_longs_iff [of "[3, - 4 :: jlong]"] by simp
  have c: "Called_native ''yices_poly_rational64''
        \<in> set (trace (rationalPoly ?env (\<lambda>p q t. Some 7) [1, 2] [3, 4] [5, 6]))"
    using a by (simp add: rationalPoly_def Let_def GetArrayElements_def acq_event_def
        release_if_acquired_def guarded_def)
  have d: "rationalPoly ?env (\<lambda>p q t. Some 7) [1, 2] [3, - 4] [5, 6]
      = \<lparr>result = - 1,
         trace = [Acquired ''t'', Acquired ''num'', Acquired ''den'', Released ''den'' JNI_ABORT,
                  Released ''num'' JNI_ABORT, Released ''t'' JNI_ABORT],
         arrays = ()\<rparr>"
    using b by (simp add: rationalPoly_def Let_def GetArrayElements_def acq_event_def
        release_if_acquired_def guarded_def)
  show ?thesis
    using negative_denominator_rejected [of "[3, - 4]" ?env "\<lambda>p q t. Some 7" "[1, 2]" "[5, 6]"]
      negative_denominator_rejected [of "[3, 4]" ?env "\<lambda>p q t. Some 7" "[1, 2]" "[5, 6]"]
      n c d by simp
qed

section \<open>Connectives\<close>

lemma stack_path_result:
  assumes "length arg \<le> AUX_SIZE"
  shows "stack_path junk name f arg =
           Inr \<lparr>result = fst (guarded (snd (f arg))),
                trace = [Region_copied ''arg'', Called_native name] @ snd (guarded (snd (f arg))),
                arrays = arg\<rparr>"
  using assms
  by (simp add: stack_path_def Let_def write_at_def split: prod.splits)

lemma heap_path_result:
  assumes "acquire env ''arg'' \<noteq> AcqFail"
  shows "heap_path env name f arg =
           Inr \<lparr>result = fst (guarded (snd (f arg))),
                trace = [Acquired ''arg'', Called_native name] @ snd (guarded (snd (f arg)))
                        @ [Released ''arg'' JNI_ABORT],
                arrays = (if acquire env ''arg'' = AcqDirect then fst (f arg) else arg)\<rparr>"
  using assms
  by (cases "acquire env ''arg''")
     (simp_all add: heap_path_def Let_def cloneIntArray_def freeClonedIntArray_def GetArrayElements_def
        ReleaseArrayElements_def split: prod.splits)

lemma guarded_spec:
  "fst (guarded (snd (f arg))) = connective_spec f arg
   \<and> (Raised_OutOfMemory \<in> set (snd (guarded (snd (f arg)))) \<longleftrightarrow> snd (f arg) = None)"
  by (simp add: guarded_def connective_spec_def split: option.splits)

lemma connective_result:
  assumes "p = stack_path junk name f arg \<and> length arg \<le> AUX_SIZE
           \<or> p = heap_path env name f arg \<and> acquire env ''arg'' \<noteq> AcqFail"
  shows "\<exists>out. p = Inr out \<and> result out = connective_spec f arg
          \<and> (Raised_OutOfMemory \<in> set (trace out) \<longleftrightarrow> snd (f arg) = None)"
  using assms guarded_spec [of f arg]
  by (auto simp add: stack_path_result heap_path_result)

text \<open>
  Where the two branches agree.  \<^verbatim>\<open>and\<close>, \<^verbatim>\<open>or\<close>, \<^verbatim>\<open>xor\<close> and \<^verbatim>\<open>distinct\<close> return what
  \<open>connective_spec\<close> gives, the term that the Yices function computes from the elements of
  the input array or \<open>-1\<close> with the out-of-memory exception, for every array that takes the
  stack buffer, and for an array that takes \<^verbatim>\<open>cloneIntArray\<close> whenever the virtual machine
  hands out the elements.  Then the two branches return the same term on an array that both
  can take, and leave the same content in the caller's array when the virtual machine
  hands out a copy.  An array of exactly \<open>AUX_SIZE\<close> elements takes the stack buffer in
  \<^verbatim>\<open>and\<close> and \<^verbatim>\<open>cloneIntArray\<close> in \<^verbatim>\<open>or\<close>, \<^verbatim>\<open>xor\<close> and \<^verbatim>\<open>distinct\<close>.
\<close>

lemma connective_agree_when_acquired:
  "((length arg \<le> AUX_SIZE \<or> acquire env ''arg'' \<noteq> AcqFail) \<longrightarrow>
      (\<exists>out. Yices_and env junk f arg = Inr out \<and> result out = connective_spec f arg
          \<and> (Raised_OutOfMemory \<in> set (trace out) \<longleftrightarrow> snd (f arg) = None)))
   \<and> ((length arg < AUX_SIZE \<or> acquire env ''arg'' \<noteq> AcqFail) \<longrightarrow>
      (\<exists>out. Yices_or env junk f arg = Inr out \<and> result out = connective_spec f arg
          \<and> (Raised_OutOfMemory \<in> set (trace out) \<longleftrightarrow> snd (f arg) = None)))
   \<and> ((length arg < AUX_SIZE \<or> acquire env ''arg'' \<noteq> AcqFail) \<longrightarrow>
      (\<exists>out. Yices_xor env junk f arg = Inr out \<and> result out = connective_spec f arg
          \<and> (Raised_OutOfMemory \<in> set (trace out) \<longleftrightarrow> snd (f arg) = None)))
   \<and> ((length arg < AUX_SIZE \<or> acquire env ''arg'' \<noteq> AcqFail) \<longrightarrow>
      (\<exists>out. Yices_distinct env junk f arg = Inr out \<and> result out = connective_spec f arg
          \<and> (Raised_OutOfMemory \<in> set (trace out) \<longleftrightarrow> snd (f arg) = None)))
   \<and> (length arg \<le> AUX_SIZE \<and> acquire env ''arg'' \<noteq> AcqFail \<longrightarrow>
      (\<exists>o1 o2. stack_path junk name f arg = Inr o1 \<and> heap_path env name f arg = Inr o2
          \<and> result o1 = result o2
          \<and> (Raised_OutOfMemory \<in> set (trace o1) \<longleftrightarrow> Raised_OutOfMemory \<in> set (trace o2))
          \<and> (acquire env ''arg'' = AcqCopy \<longrightarrow> arrays o1 = arrays o2)))
   \<and> (length arg = AUX_SIZE \<longrightarrow>
      Yices_and env junk f arg = stack_path junk ''yices_and'' f arg
      \<and> Yices_or env junk f arg = heap_path env ''yices_or'' f arg
      \<and> Yices_xor env junk f arg = heap_path env ''yices_xor'' f arg
      \<and> Yices_distinct env junk f arg = heap_path env ''yices_distinct'' f arg)"
proof (intro conjI impI)
  assume "length arg \<le> AUX_SIZE \<or> acquire env ''arg'' \<noteq> AcqFail"
  then show "\<exists>out. Yices_and env junk f arg = Inr out \<and> result out = connective_spec f arg
          \<and> (Raised_OutOfMemory \<in> set (trace out) \<longleftrightarrow> snd (f arg) = None)"
    by (intro connective_result [of _ junk "''yices_and''" f arg env]) (auto simp add: Yices_and_def)
next
  assume "length arg < AUX_SIZE \<or> acquire env ''arg'' \<noteq> AcqFail"
  then show "\<exists>out. Yices_or env junk f arg = Inr out \<and> result out = connective_spec f arg
          \<and> (Raised_OutOfMemory \<in> set (trace out) \<longleftrightarrow> snd (f arg) = None)"
    by (intro connective_result [of _ junk "''yices_or''" f arg env]) (auto simp add: Yices_or_def)
next
  assume "length arg < AUX_SIZE \<or> acquire env ''arg'' \<noteq> AcqFail"
  then show "\<exists>out. Yices_xor env junk f arg = Inr out \<and> result out = connective_spec f arg
          \<and> (Raised_OutOfMemory \<in> set (trace out) \<longleftrightarrow> snd (f arg) = None)"
    by (intro connective_result [of _ junk "''yices_xor''" f arg env]) (auto simp add: Yices_xor_def)
next
  assume "length arg < AUX_SIZE \<or> acquire env ''arg'' \<noteq> AcqFail"
  then show "\<exists>out. Yices_distinct env junk f arg = Inr out \<and> result out = connective_spec f arg
          \<and> (Raised_OutOfMemory \<in> set (trace out) \<longleftrightarrow> snd (f arg) = None)"
    by (intro connective_result [of _ junk "''yices_distinct''" f arg env])
       (auto simp add: Yices_distinct_def)
next
  assume "length arg \<le> AUX_SIZE \<and> acquire env ''arg'' \<noteq> AcqFail"
  then show "\<exists>o1 o2. stack_path junk name f arg = Inr o1 \<and> heap_path env name f arg = Inr o2
          \<and> result o1 = result o2
          \<and> (Raised_OutOfMemory \<in> set (trace o1) \<longleftrightarrow> Raised_OutOfMemory \<in> set (trace o2))
          \<and> (acquire env ''arg'' = AcqCopy \<longrightarrow> arrays o1 = arrays o2)"
    by (simp add: stack_path_result heap_path_result)
next
  assume "length arg = AUX_SIZE"
  then show "Yices_and env junk f arg = stack_path junk ''yices_and'' f arg"
    by (simp add: Yices_and_def)
next
  assume "length arg = AUX_SIZE"
  then show "Yices_or env junk f arg = heap_path env ''yices_or'' f arg"
    by (simp add: Yices_or_def)
next
  assume "length arg = AUX_SIZE"
  then show "Yices_xor env junk f arg = heap_path env ''yices_xor'' f arg"
    by (simp add: Yices_xor_def)
next
  assume "length arg = AUX_SIZE"
  then show "Yices_distinct env junk f arg = heap_path env ''yices_distinct'' f arg"
    by (simp add: Yices_distinct_def)
qed

text \<open>
  Claim C6.  The claim is that the two branches of a connective return the same term on
  every input array and differ only in the storage that holds the copied arguments.  They
  differ in more.  When the virtual machine hands out no elements, \<^verbatim>\<open>cloneIntArray\<close> returns
  \<^verbatim>\<open>NULL\<close>, and the connectives pass it to the Yices function without the test that
  \<^verbatim>\<open>tuple\<close> makes: on ten elements \<^verbatim>\<open>and\<close> takes the stack buffer and returns the term,
  while \<^verbatim>\<open>or\<close>, \<^verbatim>\<open>xor\<close> and \<^verbatim>\<open>distinct\<close> hand \<^verbatim>\<open>NULL\<close> and the length ten to the Yices
  function, as \<^verbatim>\<open>and\<close> does on eleven elements; on nine elements \<^verbatim>\<open>or\<close>, \<^verbatim>\<open>xor\<close> and
  \<^verbatim>\<open>distinct\<close> return the term.  And \<^verbatim>\<open>cloneIntArray\<close> never makes its own copy: when the
  virtual machine hands out the storage of the array, a Yices function that reverses its
  argument leaves the caller's ten elements as they were in the branch with the stack
  buffer, and reversed in the branch with \<^verbatim>\<open>cloneIntArray\<close>.
\<close>

theorem connective_paths_differ:
  "Yices_and \<lparr>acquire = (\<lambda>_. AcqFail), new_array_ok = (\<lambda>_. True), heap_ok = (\<lambda>_. True)\<rparr>
       (\<lambda>_. 99) (\<lambda>xs. (rev xs, Some 5)) [1, 2, 3, 4, 5, 6, 7, 8, 9, 10]
     = Inr \<lparr>result = 5,
            trace = [Region_copied ''arg'', Called_native ''yices_and''],
            arrays = [1, 2, 3, 4, 5, 6, 7, 8, 9, 10]\<rparr>
   \<and> Yices_or \<lparr>acquire = (\<lambda>_. AcqFail), new_array_ok = (\<lambda>_. True), heap_ok = (\<lambda>_. True)\<rparr>
       (\<lambda>_. 99) (\<lambda>xs. (rev xs, Some 5)) [1, 2, 3, 4, 5, 6, 7, 8, 9, 10]
     = Inl Null_pointer
   \<and> Yices_xor \<lparr>acquire = (\<lambda>_. AcqFail), new_array_ok = (\<lambda>_. True), heap_ok = (\<lambda>_. True)\<rparr>
       (\<lambda>_. 99) (\<lambda>xs. (rev xs, Some 5)) [1, 2, 3, 4, 5, 6, 7, 8, 9, 10]
     = Inl Null_pointer
   \<and> Yices_distinct \<lparr>acquire = (\<lambda>_. AcqFail), new_array_ok = (\<lambda>_. True), heap_ok = (\<lambda>_. True)\<rparr>
       (\<lambda>_. 99) (\<lambda>xs. (rev xs, Some 5)) [1, 2, 3, 4, 5, 6, 7, 8, 9, 10]
     = Inl Null_pointer
   \<and> Yices_and \<lparr>acquire = (\<lambda>_. AcqFail), new_array_ok = (\<lambda>_. True), heap_ok = (\<lambda>_. True)\<rparr>
       (\<lambda>_. 99) (\<lambda>xs. (rev xs, Some 5)) [1, 2, 3, 4, 5, 6, 7, 8, 9, 10, 11]
     = Inl Null_pointer
   \<and> Yices_or \<lparr>acquire = (\<lambda>_. AcqFail), new_array_ok = (\<lambda>_. True), heap_ok = (\<lambda>_. True)\<rparr>
       (\<lambda>_. 99) (\<lambda>xs. (rev xs, Some 5)) [1, 2, 3, 4, 5, 6, 7, 8, 9]
     = Inr \<lparr>result = 5,
            trace = [Region_copied ''arg'', Called_native ''yices_or''],
            arrays = [1, 2, 3, 4, 5, 6, 7, 8, 9]\<rparr>
   \<and> Yices_xor \<lparr>acquire = (\<lambda>_. AcqFail), new_array_ok = (\<lambda>_. True), heap_ok = (\<lambda>_. True)\<rparr>
       (\<lambda>_. 99) (\<lambda>xs. (rev xs, Some 5)) [1, 2, 3, 4, 5, 6, 7, 8, 9]
     = Inr \<lparr>result = 5,
            trace = [Region_copied ''arg'', Called_native ''yices_xor''],
            arrays = [1, 2, 3, 4, 5, 6, 7, 8, 9]\<rparr>
   \<and> Yices_distinct \<lparr>acquire = (\<lambda>_. AcqFail), new_array_ok = (\<lambda>_. True), heap_ok = (\<lambda>_. True)\<rparr>
       (\<lambda>_. 99) (\<lambda>xs. (rev xs, Some 5)) [1, 2, 3, 4, 5, 6, 7, 8, 9]
     = Inr \<lparr>result = 5,
            trace = [Region_copied ''arg'', Called_native ''yices_distinct''],
            arrays = [1, 2, 3, 4, 5, 6, 7, 8, 9]\<rparr>
   \<and> stack_path (\<lambda>_. 99) ''yices_and'' (\<lambda>xs. (rev xs, Some 5)) [1, 2, 3, 4, 5, 6, 7, 8, 9, 10]
     = Inr \<lparr>result = 5,
            trace = [Region_copied ''arg'', Called_native ''yices_and''],
            arrays = [1, 2, 3, 4, 5, 6, 7, 8, 9, 10]\<rparr>
   \<and> heap_path \<lparr>acquire = (\<lambda>_. AcqFail), new_array_ok = (\<lambda>_. True), heap_ok = (\<lambda>_. True)\<rparr>
       ''yices_and'' (\<lambda>xs. (rev xs, Some 5)) [1, 2, 3, 4, 5, 6, 7, 8, 9, 10]
     = Inl Null_pointer
   \<and> heap_path \<lparr>acquire = (\<lambda>_. AcqDirect), new_array_ok = (\<lambda>_. True), heap_ok = (\<lambda>_. True)\<rparr>
       ''yices_and'' (\<lambda>xs. (rev xs, Some 5)) [1, 2, 3, 4, 5, 6, 7, 8, 9, 10]
     = Inr \<lparr>result = 5,
            trace = [Acquired ''arg'', Called_native ''yices_and'', Released ''arg'' JNI_ABORT],
            arrays = [10, 9, 8, 7, 6, 5, 4, 3, 2, 1]\<rparr>"
  by (simp add: Yices_and_def Yices_or_def Yices_xor_def Yices_distinct_def AUX_SIZE_def
      stack_path_def heap_path_def cloneIntArray_def freeClonedIntArray_def GetArrayElements_def
      ReleaseArrayElements_def write_at_def guarded_def Let_def)

text \<open>
  Claim C5.  The claim is that an array at or above the threshold is unchanged after the
  call.  \<^verbatim>\<open>cloneIntArray\<close> tests the pointer \<^verbatim>\<open>copy\<close> instead of the flag \<^verbatim>\<open>*copy\<close>, so it
  never makes its own copy.  On a virtual machine that hands out the array's own storage, a
  Yices function that reverses its argument leaves the caller's array reversed: here for
  \<^verbatim>\<open>and\<close> on eleven elements and for \<^verbatim>\<open>or\<close>, \<^verbatim>\<open>xor\<close> and \<^verbatim>\<open>distinct\<close> on ten.
\<close>

theorem connective_argument_overwritten:
  "Yices_and \<lparr>acquire = (\<lambda>_. AcqDirect), new_array_ok = (\<lambda>_. True), heap_ok = (\<lambda>_. True)\<rparr>
       (\<lambda>_. 99) (\<lambda>xs. (rev xs, Some 5)) [1, 2, 3, 4, 5, 6, 7, 8, 9, 10, 11]
     = Inr \<lparr>result = 5,
            trace = [Acquired ''arg'', Called_native ''yices_and'', Released ''arg'' JNI_ABORT],
            arrays = [11, 10, 9, 8, 7, 6, 5, 4, 3, 2, 1]\<rparr>
   \<and> Yices_or \<lparr>acquire = (\<lambda>_. AcqDirect), new_array_ok = (\<lambda>_. True), heap_ok = (\<lambda>_. True)\<rparr>
       (\<lambda>_. 99) (\<lambda>xs. (rev xs, Some 5)) [1, 2, 3, 4, 5, 6, 7, 8, 9, 10]
     = Inr \<lparr>result = 5,
            trace = [Acquired ''arg'', Called_native ''yices_or'', Released ''arg'' JNI_ABORT],
            arrays = [10, 9, 8, 7, 6, 5, 4, 3, 2, 1]\<rparr>
   \<and> Yices_xor \<lparr>acquire = (\<lambda>_. AcqDirect), new_array_ok = (\<lambda>_. True), heap_ok = (\<lambda>_. True)\<rparr>
       (\<lambda>_. 99) (\<lambda>xs. (rev xs, Some 5)) [1, 2, 3, 4, 5, 6, 7, 8, 9, 10]
     = Inr \<lparr>result = 5,
            trace = [Acquired ''arg'', Called_native ''yices_xor'', Released ''arg'' JNI_ABORT],
            arrays = [10, 9, 8, 7, 6, 5, 4, 3, 2, 1]\<rparr>
   \<and> Yices_distinct \<lparr>acquire = (\<lambda>_. AcqDirect), new_array_ok = (\<lambda>_. True), heap_ok = (\<lambda>_. True)\<rparr>
       (\<lambda>_. 99) (\<lambda>xs. (rev xs, Some 5)) [1, 2, 3, 4, 5, 6, 7, 8, 9, 10]
     = Inr \<lparr>result = 5,
            trace = [Acquired ''arg'', Called_native ''yices_distinct'', Released ''arg'' JNI_ABORT],
            arrays = [10, 9, 8, 7, 6, 5, 4, 3, 2, 1]\<rparr>"
  by (simp add: Yices_and_def Yices_or_def Yices_xor_def Yices_distinct_def AUX_SIZE_def
      heap_path_result guarded_def)

text \<open>
  Below the threshold, and when the virtual machine hands out a copy, the array is unchanged.
\<close>

lemma connective_argument_kept:
  assumes "p = Yices_and env junk f arg \<or> p = Yices_or env junk f arg
           \<or> p = Yices_xor env junk f arg \<or> p = Yices_distinct env junk f arg"
    and "p = Inr out"
    and "length arg < AUX_SIZE \<or> acquire env ''arg'' = AcqCopy"
  shows "arrays out = arg"
  using assms
  by (auto simp add: Yices_and_def Yices_or_def Yices_xor_def Yices_distinct_def
      stack_path_result heap_path_result split: if_splits)

section \<open>The byte arrays of the decoding entry points\<close>

text \<open>
  Claim C10.  The claim is that the caller's byte arrays are unchanged after
  \<^verbatim>\<open>bytesToIntConstant\<close> and \<^verbatim>\<open>bytesToRationalConstant\<close>.  The elements are released with
  \<^verbatim>\<open>JNI_ABORT\<close>, which discards the changes made to a copy only.  On a virtual machine that
  hands out the array's own storage the negation in place is a write to the caller's array:
  the array \<^verbatim>\<open>[0xFF]\<close> is left as \<^verbatim>\<open>[0x01]\<close>, and \<^verbatim>\<open>[0xFC]\<close>, \<^verbatim>\<open>[0xFE]\<close> as \<^verbatim>\<open>[0x04]\<close>,
  \<^verbatim>\<open>[0x02]\<close>.
\<close>

theorem bytes_argument_overwritten:
  "bytesToIntConstant \<lparr>acquire = (\<lambda>_. AcqDirect), new_array_ok = (\<lambda>_. True), heap_ok = (\<lambda>_. True)\<rparr>
       (\<lambda>z. Some 7) [0xFF]
     = Inr \<lparr>result = 7,
            trace = [Acquired ''a'', Called_yices_mpz (- 1), Released ''a'' JNI_ABORT],
            arrays = [0x01]\<rparr>
   \<and> bytesToRationalConstant
       \<lparr>acquire = (\<lambda>_. AcqDirect), new_array_ok = (\<lambda>_. True), heap_ok = (\<lambda>_. True)\<rparr>
       (\<lambda>q. Some 7) ((\<lambda>_. [])(0 := [0xFC], 1 := [0xFE])) 0 1
     = Inr \<lparr>result = 7,
            trace = [Acquired ''num'', Acquired ''den'', Canonicalized, Called_yices_mpq 2 1,
                     Released ''num'' JNI_ABORT, Released ''den'' JNI_ABORT],
            arrays = (\<lambda>_. [])(0 := [0x04], 1 := [0x02])\<rparr>"
proof -
  let ?env = "\<lparr>acquire = (\<lambda>_. AcqDirect), new_array_ok = (\<lambda>_. True), heap_ok = (\<lambda>_. True)\<rparr>"
  let ?h = "(\<lambda>_. [])(0 := [0xFC], 1 := [0xFE :: jbyte]) :: byte_store"
  have d1: "byte_array_to_mpz [0xFF] (length [0xFF :: jbyte]) = Inr (- 1, [0x01])" by code_simp
  have d2: "byte_array_to_mpz [0xFC] (length [0xFC :: jbyte]) = Inr (- 4, [0x04])" by code_simp
  have d3: "byte_array_to_mpz [0xFE] (length [0xFE :: jbyte]) = Inr (- 2, [0x02])" by code_simp
  have c: "mpq_canonicalize (- 4, - 2) = (2, 1)" by (simp add: mpq_canonicalize_def Let_def)
  have i: "bytesToIntConstant ?env (\<lambda>z. Some 7) [0xFF]
     = Inr \<lparr>result = 7,
            trace = [Acquired ''a'', Called_yices_mpz (- 1), Released ''a'' JNI_ABORT],
            arrays = [0x01]\<rparr>"
    using d1
    by (simp add: bytesToIntConstant_def Let_def GetArrayElements_def
        ReleaseArrayElements_def release_if_acquired_def acq_event_def guarded_def)
  have a: "acquire ?env ''num'' \<noteq> AcqFail" "acquire ?env ''den'' \<noteq> AcqFail" by simp_all
  have n: "byte_array_to_mpz (?h 0) (length (?h 0)) = Inr (- 4, [0x04])" using d2 by simp
  have d: "byte_array_to_mpz
             (if acquire ?env ''den'' = AcqDirect
              then (if acquire ?env ''num'' = AcqDirect then ?h(0 := [0x04]) else ?h) 1 else ?h 1)
             (length (?h 1)) = Inr (- 2, [0x02])"
    using d3 by simp
  have r: "bytesToRationalConstant ?env (\<lambda>q. Some 7) ?h 0 1
     = Inr \<lparr>result = 7,
            trace = [Acquired ''num'', Acquired ''den'', Canonicalized, Called_yices_mpq 2 1,
                     Released ''num'' JNI_ABORT, Released ''den'' JNI_ABORT],
            arrays = (\<lambda>_. [])(0 := [0x04], 1 := [0x02])\<rparr>"
    unfolding rational_acquired [OF a n refl d] by (auto simp add: c fun_eq_iff)
  show ?thesis using i r by (rule conjI)
qed

text \<open>When the virtual machine hands out a copy the array is unchanged.\<close>

lemma bytes_argument_kept:
  "acquire env ''a'' \<noteq> AcqDirect \<Longrightarrow> bytesToIntConstant env f a = Inr out \<Longrightarrow> arrays out = a"
  by (cases "acquire env ''a''")
     (auto simp add: bytesToIntConstant_def Let_def GetArrayElements_def ReleaseArrayElements_def
        split: sum.splits prod.splits)

text \<open>When the virtual machine hands out copies the store is unchanged.\<close>

lemma rational_arguments_kept:
  assumes "acquire env ''num'' \<noteq> AcqDirect" "acquire env ''den'' \<noteq> AcqDirect"
    and "bytesToRationalConstant env f h num den = Inr out"
  shows "arrays out = h"
  using assms
  by (cases "acquire env ''num''"; cases "acquire env ''den''")
     (auto simp add: bytesToRationalConstant_def Let_def GetByteArrayElements_def
        elems_content_def elems_write_def ReleaseByteArrayElements_def
        release_bytes_if_acquired_def split: sum.splits prod.splits)

end
